theory Spec2Isabelle
  imports Main "HOL-Library.Word" "HOL-Library.Stream"
begin

unbundle bit_operations_syntax

section \<open>The vhost-user control channel of virtio-user (vhost\_user.c)\<close>

text \<open>
  A shallow embedding of \<^verbatim>\<open>drivers/net/virtio/virtio_user/vhost_user.c\<close>. Every system
  call the file makes (sendmsg, recv, fopen/fgets on /proc/self/maps, stat, open, close)
  is a function on an explicit \<open>world\<close>; the C functions keep their names and thread the
  world through. Integers that live in the message are words of their C width; file
  descriptors, lengths and return values are \<open>int\<close>, whose range the code never leaves.
\<close>

subsection \<open>Bytes and words in host order\<close>

type_synonym byte = "8 word"
type_synonym u16 = "16 word"
type_synonym u32 = "32 word"
type_synonym u64 = "64 word"

text \<open>Host byte order is little-endian here (the message is sent as raw memory).\<close>

definition u32_bytes :: "u32 \<Rightarrow> byte list" where
  "u32_bytes x = [ucast x, ucast (drop_bit 8 x), ucast (drop_bit 16 x), ucast (drop_bit 24 x)]"

definition u64_bytes :: "u64 \<Rightarrow> byte list" where
  "u64_bytes x =
     [ucast x, ucast (drop_bit 8 x), ucast (drop_bit 16 x), ucast (drop_bit 24 x),
      ucast (drop_bit 32 x), ucast (drop_bit 40 x), ucast (drop_bit 48 x), ucast (drop_bit 56 x)]"

definition bytes_u32 :: "byte list \<Rightarrow> u32" where
  "bytes_u32 bs = foldr (\<lambda>b acc. ucast b OR push_bit 8 acc) (take 4 bs) 0"

definition bytes_u64 :: "byte list \<Rightarrow> u64" where
  "bytes_u64 bs = foldr (\<lambda>b acc. ucast b OR push_bit 8 acc) (take 8 bs) 0"

subsection \<open>The structures of the message\<close>

text \<open>
  Modelled from the spec: \<^verbatim>\<open>struct vhost_vring_state\<close>, \<^verbatim>\<open>struct vhost_vring_file\<close>,
  \<^verbatim>\<open>struct vhost_vring_addr\<close> and \<^verbatim>\<open>struct vhost_memory_region\<close> are declared in
  vhost.h, which is not among the sources. Section 6 of the spec gives the vring state as
  a 4-byte index and a 4-byte value and the region descriptor as four 8-byte fields; the
  vring address descriptor is the "fixed multi-field layout" of the vhost ABI (two 4-byte
  and four 8-byte fields).
\<close>

record vhost_vring_state =
  vring_index :: u32
  vring_num :: u32

record vhost_vring_file =
  file_index :: u32
  file_fd :: int

record vhost_vring_addr =
  addr_index :: u32
  addr_flags :: u32
  desc_user_addr :: u64
  used_user_addr :: u64
  avail_user_addr :: u64
  log_guest_addr :: u64

record vhost_memory_region =
  guest_phys_addr :: u64
  memory_size :: u64
  userspace_addr :: u64
  mmap_offset :: u64

definition state_bytes :: "vhost_vring_state \<Rightarrow> byte list" where
  "state_bytes s = u32_bytes (vring_index s) @ u32_bytes (vring_num s)"

definition bytes_state :: "byte list \<Rightarrow> vhost_vring_state" where
  "bytes_state bs = \<lparr>vring_index = bytes_u32 bs, vring_num = bytes_u32 (drop 4 bs)\<rparr>"

definition addr_bytes :: "vhost_vring_addr \<Rightarrow> byte list" where
  "addr_bytes a =
     u32_bytes (addr_index a) @ u32_bytes (addr_flags a) @ u64_bytes (desc_user_addr a) @
     u64_bytes (used_user_addr a) @ u64_bytes (avail_user_addr a) @ u64_bytes (log_guest_addr a)"

definition region_bytes :: "vhost_memory_region \<Rightarrow> byte list" where
  "region_bytes r =
     u64_bytes (guest_phys_addr r) @ u64_bytes (memory_size r) @
     u64_bytes (userspace_addr r) @ u64_bytes (mmap_offset r)"

text \<open>The sizes \<^verbatim>\<open>sizeof\<close> yields for the members of the payload union.\<close>

definition sizeof_u64 :: nat where
  "sizeof_u64 = 8"

definition sizeof_vring_state :: nat where
  "sizeof_vring_state = 8"

definition sizeof_vring_addr :: nat where
  "sizeof_vring_addr = 40"

definition sizeof_memory_region :: nat where
  "sizeof_memory_region = 32"

definition VHOST_MEMORY_MAX_NREGIONS :: nat where
  "VHOST_MEMORY_MAX_NREGIONS = 8"

text \<open>\<^verbatim>\<open>struct vhost_memory\<close>: nregions, padding and eight regions.\<close>

definition sizeof_vhost_memory :: nat where
  "sizeof_vhost_memory = 4 + 4 + VHOST_MEMORY_MAX_NREGIONS * sizeof_memory_region"

text \<open>\<^verbatim>\<open>sizeof(msg->payload)\<close>: the union is as large as its largest member.\<close>

definition sizeof_payload :: nat where
  "sizeof_payload =
     max (max sizeof_u64 sizeof_vring_state) (max sizeof_vring_addr sizeof_vhost_memory)"

definition VHOST_USER_VERSION :: u32 where
  "VHOST_USER_VERSION = 1"

definition VHOST_USER_VERSION_MASK :: u32 where
  "VHOST_USER_VERSION_MASK = 3"

definition VHOST_USER_REPLY_MASK :: u32 where
  "VHOST_USER_REPLY_MASK = push_bit 2 1"

definition VHOST_USER_VRING_IDX_MASK :: u32 where
  "VHOST_USER_VRING_IDX_MASK = 255"

definition VHOST_USER_VRING_NOFD_MASK :: u64 where
  "VHOST_USER_VRING_NOFD_MASK = push_bit 8 1"

text \<open>
  \<^verbatim>\<open>struct vhost_user_msg\<close>. The request is kept as its 4-byte code. The payload union
  is kept as the bytes written into it so far, from its start: what lies behind them is
  uninitialised stack and is never sent nor read. The \<^verbatim>\<open>fds\<close> member of the struct is
  not used by this file (the dispatcher has an array of its own).
\<close>

record vhost_user_msg =
  request :: u32
  flags :: u32
  msg_size :: u32
  payload :: "byte list"

text \<open>\<^verbatim>\<open>VHOST_USER_HDR_SIZE\<close>: the offset of the payload in the packed struct.\<close>

definition VHOST_USER_HDR_SIZE :: nat where
  "VHOST_USER_HDR_SIZE = 12"

definition hdr_bytes :: "vhost_user_msg \<Rightarrow> byte list" where
  "hdr_bytes m = u32_bytes (request m) @ u32_bytes (flags m) @ u32_bytes (msg_size m)"

text \<open>
  Modelled from the spec: \<^verbatim>\<open>enum vhost_user_request\<close> is declared in vhost.h, which is
  not among the sources. Section 6 of the spec names the recognised kinds and leaves their
  integer codes to the protocol; the codes below are those of the vhost-user protocol.
  Every other value of the enumeration is \<open>VHOST_USER_OTHER\<close> with its code.
\<close>

datatype vhost_user_request =
    VHOST_USER_GET_FEATURES
  | VHOST_USER_SET_FEATURES
  | VHOST_USER_SET_OWNER
  | VHOST_USER_RESET_OWNER
  | VHOST_USER_SET_MEM_TABLE
  | VHOST_USER_SET_LOG_BASE
  | VHOST_USER_SET_LOG_FD
  | VHOST_USER_SET_VRING_NUM
  | VHOST_USER_SET_VRING_ADDR
  | VHOST_USER_SET_VRING_BASE
  | VHOST_USER_GET_VRING_BASE
  | VHOST_USER_SET_VRING_KICK
  | VHOST_USER_SET_VRING_CALL
  | VHOST_USER_SET_VRING_ERR
  | VHOST_USER_SET_VRING_ENABLE
  | VHOST_USER_OTHER u32

fun request_code :: "vhost_user_request \<Rightarrow> u32" where
  "request_code VHOST_USER_GET_FEATURES = 1"
| "request_code VHOST_USER_SET_FEATURES = 2"
| "request_code VHOST_USER_SET_OWNER = 3"
| "request_code VHOST_USER_RESET_OWNER = 4"
| "request_code VHOST_USER_SET_MEM_TABLE = 5"
| "request_code VHOST_USER_SET_LOG_BASE = 6"
| "request_code VHOST_USER_SET_LOG_FD = 7"
| "request_code VHOST_USER_SET_VRING_NUM = 8"
| "request_code VHOST_USER_SET_VRING_ADDR = 9"
| "request_code VHOST_USER_SET_VRING_BASE = 10"
| "request_code VHOST_USER_GET_VRING_BASE = 11"
| "request_code VHOST_USER_SET_VRING_KICK = 12"
| "request_code VHOST_USER_SET_VRING_CALL = 13"
| "request_code VHOST_USER_SET_VRING_ERR = 14"
| "request_code VHOST_USER_SET_VRING_ENABLE = 18"
| "request_code (VHOST_USER_OTHER c) = c"

text \<open>
  What the \<^verbatim>\<open>void *arg\<close> of a request points to. The dispatcher reads it through the
  pointer type its request kind implies; reading it through another type has no defined
  result (\<open>BadArgument\<close> below).
\<close>

datatype arg =
    ArgNull
  | ArgU64 u64
  | ArgInt int
  | ArgState vhost_vring_state
  | ArgAddr vhost_vring_addr
  | ArgFile vhost_vring_file

text \<open>
  The ways a call can have no return value: a pointer of the wrong type, arithmetic on
  the null pointer \<^verbatim>\<open>strchr\<close> returns for a line without the expected blank, and a
  \<^verbatim>\<open>sendmsg\<close> that is interrupted for ever.
\<close>

datatype fault = BadArgument | NullPointer | NoReturn

subsection \<open>The world: what the system calls see and change\<close>

datatype send_result = Sent nat | SendFailed int

datatype recv_result = Received "byte list" | RecvFailed int

record sendmsg_call =
  sm_sockfd :: int
  sm_buf :: vhost_user_msg
  sm_len :: int
  sm_fds :: "int list"

record recv_call =
  rc_sockfd :: int
  rc_len :: nat

text \<open>
  \<^item> \<open>sendmsg_script\<close>, \<open>recv_script\<close>: what the kernel answers to the successive calls
    (\<open>Sent n\<close>: it took \<open>n\<close> bytes, capped by the length asked for; \<open>Received bs\<close>: \<open>bs\<close>
    is there to be read, capped likewise; the failures carry their errno).
  \<^item> \<open>sendmsg_log\<close>, \<open>recv_log\<close>: the calls made so far, in order.
  \<^item> \<open>proc_self_maps\<close>: the lines \<^verbatim>\<open>fgets\<close> returns for /proc/self/maps, or \<open>None\<close>
    when \<^verbatim>\<open>fopen\<close> fails.
  \<^item> \<open>stat_size\<close>: \<^verbatim>\<open>st_size\<close> of a path, or \<open>None\<close> when \<^verbatim>\<open>stat\<close> fails.
  \<^item> \<open>can_open\<close> and \<open>open_fds\<close>: which paths \<^verbatim>\<open>open\<close> opens, and the descriptors
    that are open now.
  \<^item> \<open>dispatch_log\<close>: the requests handed to \<open>vhost_user_sock\<close> so far (the function
    logs each one on entry).
\<close>

record world =
  sendmsg_script :: "send_result stream"
  sendmsg_log :: "sendmsg_call list"
  recv_script :: "recv_result stream"
  recv_log :: "recv_call list"
  errno :: int
  proc_self_maps :: "string list option"
  stat_size :: "string \<Rightarrow> u64 option"
  can_open :: "string \<Rightarrow> bool"
  open_fds :: "int list"
  dispatch_log :: "(vhost_user_request \<times> arg) list"

definition EINTR :: int where
  "EINTR = 4"

definition sendmsg :: "world \<Rightarrow> sendmsg_call \<Rightarrow> int \<times> world" where
  "sendmsg w c =
     (let w' = w\<lparr>sendmsg_script := stl (sendmsg_script w), sendmsg_log := sendmsg_log w @ [c]\<rparr>
      in case shd (sendmsg_script w) of
           Sent n \<Rightarrow> (int (min n (nat (sm_len c))), w')
         | SendFailed e \<Rightarrow> (- 1, w'\<lparr>errno := e\<rparr>))"

definition recv :: "world \<Rightarrow> int \<Rightarrow> nat \<Rightarrow> int \<times> byte list \<times> world" where
  "recv w fd len =
     (let w' = w\<lparr>recv_script := stl (recv_script w),
                 recv_log := recv_log w @ [\<lparr>rc_sockfd = fd, rc_len = len\<rparr>]\<rparr>
      in case shd (recv_script w) of
           Received bs \<Rightarrow> (int (length (take len bs)), take len bs, w')
         | RecvFailed e \<Rightarrow> (- 1, [], w'\<lparr>errno := e\<rparr>))"

text \<open>\<^verbatim>\<open>open(path, O_RDWR)\<close>: the lowest descriptor that is not open, or -1.\<close>

definition lowest_free :: "int list \<Rightarrow> int" where
  "lowest_free fds = int (length (takeWhile (\<lambda>n. int n \<in> set fds) [0 ..< Suc (length fds)]))"

definition open_rdwr :: "world \<Rightarrow> string \<Rightarrow> int \<times> world" where
  "open_rdwr w p =
     (if can_open w p
      then (let fd = lowest_free (open_fds w) in (fd, w\<lparr>open_fds := fd # open_fds w\<rparr>))
      else (- 1, w))"

definition close_fd :: "world \<Rightarrow> int \<Rightarrow> world" where
  "close_fd w fd = w\<lparr>open_fds := removeAll fd (open_fds w)\<rparr>"

subsection \<open>Message transport\<close>

text \<open>
  \<open>vhost_user_write\<close>: one \<^verbatim>\<open>sendmsg\<close> of \<open>len\<close> bytes of the message with the
  descriptors as SCM\_RIGHTS data, repeated while it fails with EINTR. The loop has no
  bound: where every call is interrupted the function does not return (\<open>None\<close>).
\<close>

partial_function (option) sendmsg_retry :: "world \<Rightarrow> sendmsg_call \<Rightarrow> (int \<times> world) option" where
  "sendmsg_retry w c =
     (case sendmsg w c of
        (r, w') \<Rightarrow> if r < 0 \<and> errno w' = EINTR then sendmsg_retry w' c else Some (r, w'))"

definition vhost_user_write ::
  "world \<Rightarrow> int \<Rightarrow> vhost_user_msg \<Rightarrow> int \<Rightarrow> int list \<Rightarrow> int \<Rightarrow> (int \<times> world) option" where
  "vhost_user_write w fd buf len fds fd_num =
     sendmsg_retry w
       \<lparr>sm_sockfd = fd, sm_buf = buf, sm_len = len, sm_fds = take (nat fd_num) fds\<rparr>"

text \<open>
  \<open>vhost_user_read\<close>: the header with one \<^verbatim>\<open>recv\<close>, its checks, then the payload with a
  second one. \<^verbatim>\<open>sz_payload\<close> is the C \<^verbatim>\<open>int\<close> read from the unsigned size field, and
  the bound compares it after the cast to \<^verbatim>\<open>size_t\<close> (sign extension to 64 bits). On
  success the bytes received overwrite the start of the payload union. The bytes of a
  header that came short land in \<^verbatim>\<open>msg\<close> too, but the caller drops the message then:
  the model hands it back as it was.
\<close>

definition read_header :: "vhost_user_msg \<Rightarrow> byte list \<Rightarrow> vhost_user_msg" where
  "read_header msg bs =
     msg\<lparr>request := bytes_u32 bs, flags := bytes_u32 (drop 4 bs), msg_size := bytes_u32 (drop 8 bs)\<rparr>"

definition vhost_user_read :: "world \<Rightarrow> int \<Rightarrow> vhost_user_msg \<Rightarrow> int \<times> vhost_user_msg \<times> world" where
  "vhost_user_read w fd msg =
     (let valid_flags = VHOST_USER_REPLY_MASK OR VHOST_USER_VERSION;
          sz_hdr = VHOST_USER_HDR_SIZE
      in case recv w fd sz_hdr of
           (ret, hdr, w1) \<Rightarrow>
             if ret < int sz_hdr then (- 1, msg, w1)
             else
               let msg1 = read_header msg hdr in
               if flags msg1 \<noteq> valid_flags then (- 1, msg1, w1)
               else
                 let sz_payload = sint (msg_size msg1) in
                 if (word_of_int sz_payload :: u64) > word_of_nat sizeof_payload
                 then (- 1, msg1, w1)
                 else if sz_payload \<noteq> 0 then
                   (case recv w1 fd (unat (word_of_int sz_payload :: u64)) of
                      (ret2, body, w2) \<Rightarrow>
                        if ret2 < sz_payload then (- 1, msg1, w2)
                        else (0, msg1\<lparr>payload := body @ drop (length body) (payload msg1)\<rparr>, w2))
                 else (0, msg1, w1))"

subsection \<open>Memory region discovery\<close>

record hugepage_file_info =
  hp_addr :: u64
  hp_size :: u64
  hp_path :: string

text \<open>\<^verbatim>\<open>PATH_MAX\<close> of limits.h, the size of the \<^verbatim>\<open>path\<close> member.\<close>

definition PATH_MAX :: nat where
  "PATH_MAX = 4096"

text \<open>
  The C library's scanning, as glibc does it. \<open>scan_hex\<close> is the conversion \<^verbatim>\<open>%lx\<close>:
  white space is skipped, a sign and a \<^verbatim>\<open>0x\<close> are accepted, at least one digit is
  needed, and a value that does not fit is the largest one. It returns the value and the
  rest of the input.
\<close>

definition isspace :: "char \<Rightarrow> bool" where
  "isspace c = (c = CHR '' '' \<or> (9 \<le> (of_char c :: nat) \<and> (of_char c :: nat) \<le> 13))"

definition isdigit :: "char \<Rightarrow> bool" where
  "isdigit c = (48 \<le> (of_char c :: nat) \<and> (of_char c :: nat) \<le> 57)"

definition xdigit_val :: "char \<Rightarrow> nat option" where
  "xdigit_val c =
     (let n = (of_char c :: nat)
      in if 48 \<le> n \<and> n \<le> 57 then Some (n - 48)
         else if 97 \<le> n \<and> n \<le> 102 then Some (n - 87)
         else if 65 \<le> n \<and> n \<le> 70 then Some (n - 55)
         else None)"

fun scan_xdigits :: "int \<Rightarrow> string \<Rightarrow> int \<times> string" where
  "scan_xdigits acc [] = (acc, [])"
| "scan_xdigits acc (c # cs) =
     (case xdigit_val c of
        None \<Rightarrow> (acc, c # cs)
      | Some d \<Rightarrow> scan_xdigits (16 * acc + int d) cs)"

definition starts_with :: "(char \<Rightarrow> bool) \<Rightarrow> string \<Rightarrow> bool" where
  "starts_with P s = (case s of [] \<Rightarrow> False | c # _ \<Rightarrow> P c)"

definition scan_hex :: "string \<Rightarrow> (u64 \<times> string) option" where
  "scan_hex s =
     (let s1 = dropWhile isspace s;
          neg = starts_with (\<lambda>c. c = CHR ''-'') s1;
          s2 = (if starts_with (\<lambda>c. c = CHR ''-'' \<or> c = CHR ''+'') s1 then drop 1 s1 else s1);
          zero = starts_with (\<lambda>c. c = CHR ''0'') s2;
          s3 = (if zero then drop 1 s2 else s2);
          s4 = (if zero \<and> starts_with (\<lambda>c. c = CHR ''x'' \<or> c = CHR ''X'') s3 then drop 1 s3 else s3)
      in if \<not> zero \<and> \<not> starts_with (\<lambda>c. xdigit_val c \<noteq> None) s4 then None
         else (case scan_xdigits 0 s4 of
                 (n, rest) \<Rightarrow>
                   Some (if 2 ^ 64 \<le> n then - 1 else if neg then - word_of_int n else word_of_int n,
                         rest)))"

text \<open>\<^verbatim>\<open>sscanf(buf, "%lx-%lx", &v_start, &v_end)\<close>; \<open>None\<close> when it converts fewer than two.\<close>

definition sscanf_range :: "string \<Rightarrow> (u64 \<times> u64) option" where
  "sscanf_range buf =
     (case scan_hex buf of
        None \<Rightarrow> None
      | Some (v_start, r) \<Rightarrow>
          (case r of
             [] \<Rightarrow> None
           | c # r' \<Rightarrow>
               if c = CHR ''-''
               then (case scan_hex r' of None \<Rightarrow> None | Some (v_end, _) \<Rightarrow> Some (v_start, v_end))
               else None))"

text \<open>
  \<^verbatim>\<open>strchr(s, ' ') + 1\<close>: behind the first blank. Without a blank \<^verbatim>\<open>strchr\<close> returns
  the null pointer and the sum is undefined (\<open>None\<close>).
\<close>

definition skip_field :: "string \<Rightarrow> string option" where
  "skip_field s = (case dropWhile (\<lambda>c. c \<noteq> CHR '' '') s of [] \<Rightarrow> None | _ # r \<Rightarrow> Some r)"

text \<open>\<^verbatim>\<open>tail = strrchr(tmp, '\n'); if (tail) *tail = '\0'\<close>: cut at the last newline.\<close>

definition cut_newline :: "string \<Rightarrow> string" where
  "cut_newline s =
     (if CHR 0x0A \<in> set s then rev (drop 1 (dropWhile (\<lambda>c. c \<noteq> CHR 0x0A) (rev s))) else s)"

text \<open>The path column: five fields skipped, then the blanks, then the newline cut.\<close>

definition path_field :: "string \<Rightarrow> string option" where
  "path_field buf =
     Option.bind (skip_field buf) (\<lambda>t1.
     Option.bind (skip_field t1) (\<lambda>t2.
     Option.bind (skip_field t2) (\<lambda>t3.
     Option.bind (skip_field t3) (\<lambda>t4.
     Option.bind (skip_field t4) (\<lambda>t5.
       Some (cut_newline (dropWhile (\<lambda>c. c = CHR '' '') t5)))))))"

text \<open>\<^verbatim>\<open>strrchr(tmp, '_')\<close>, as an index into \<open>tmp\<close>.\<close>

definition str_underline :: "string \<Rightarrow> nat option" where
  "str_underline tmp =
     (case dropWhile (\<lambda>c. c \<noteq> CHR ''_'') (rev tmp) of [] \<Rightarrow> None | _ # r \<Rightarrow> Some (length r))"

text \<open>\<^verbatim>\<open>sscanf(str_start, "map_%d", &huge_index) == 1\<close>.\<close>

definition scan_map_index :: "string \<Rightarrow> bool" where
  "scan_map_index s =
     (case s of
        m # a # p # u # r \<Rightarrow>
          m = CHR ''m'' \<and> a = CHR ''a'' \<and> p = CHR ''p'' \<and> u = CHR ''_'' \<and>
          (let r1 = dropWhile isspace r;
               r2 = (if starts_with (\<lambda>c. c = CHR ''-'' \<or> c = CHR ''+'') r1 then drop 1 r1 else r1)
           in starts_with isdigit r2)
      | _ \<Rightarrow> False)"

text \<open>The three tests that let a path through as a hugepage file (HUGEFILE\_FMT).\<close>

definition hugefile_match :: "string \<Rightarrow> bool" where
  "hugefile_match tmp =
     (case str_underline tmp of
        None \<Rightarrow> False
      | Some u \<Rightarrow> if u < 3 then False else scan_map_index (drop (u - 3) tmp))"

text \<open>The loop that looks for \<open>tmp\<close> among the paths recorded so far: the index, or -1.\<close>

fun find_exist :: "hugepage_file_info list \<Rightarrow> string \<Rightarrow> nat \<Rightarrow> int" where
  "find_exist [] tmp k = - 1"
| "find_exist (h # hs) tmp k = (if hp_path h = tmp then int k else find_exist hs tmp (Suc k))"

text \<open>
  The \<^verbatim>\<open>fgets\<close> loop over the lines, with \<open>huges\<close> the entries written so far
  (\<^verbatim>\<open>idx\<close> is their number) and \<open>maxn\<close> the parameter \<^verbatim>\<open>max\<close>. The result is the
  value returned (-1 at \<^verbatim>\<open>goto error\<close>) and the entries.
\<close>

fun scan_maps ::
  "int \<Rightarrow> string list \<Rightarrow> hugepage_file_info list \<Rightarrow> fault + int \<times> hugepage_file_info list" where
  "scan_maps maxn [] huges = Inr (int (length huges), huges)"
| "scan_maps maxn (buf # rest) huges =
     (case sscanf_range buf of
        None \<Rightarrow> Inr (- 1, huges)
      | Some (v_start, v_end) \<Rightarrow>
          (case path_field buf of
             None \<Rightarrow> Inl NullPointer
           | Some tmp \<Rightarrow>
               if \<not> hugefile_match tmp then scan_maps maxn rest huges
               else if 0 \<le> find_exist huges tmp 0 then scan_maps maxn rest huges
               else if maxn \<le> int (length huges) then Inr (- 1, huges)
               else scan_maps maxn rest
                      (huges @ [\<lparr>hp_addr = v_start, hp_size = v_end - v_start,
                                 hp_path = take (PATH_MAX - 1) tmp\<rparr>])))"

text \<open>The second loop: the size becomes \<^verbatim>\<open>st_size\<close> where \<^verbatim>\<open>stat\<close> succeeds.\<close>

definition correct_size :: "world \<Rightarrow> hugepage_file_info \<Rightarrow> hugepage_file_info" where
  "correct_size w h = (case stat_size w (hp_path h) of None \<Rightarrow> h | Some sz \<Rightarrow> h\<lparr>hp_size := sz\<rparr>)"

definition get_hugepage_file_info :: "world \<Rightarrow> int \<Rightarrow> fault + int \<times> hugepage_file_info list" where
  "get_hugepage_file_info w maxn =
     (case proc_self_maps w of
        None \<Rightarrow> Inr (- 1, [])
      | Some lines \<Rightarrow>
          (case scan_maps maxn lines [] of
             Inl f \<Rightarrow> Inl f
           | Inr (idx, huges) \<Rightarrow>
               if idx < 0 then Inr (- 1, huges) else Inr (idx, map (correct_size w) huges)))"

text \<open>The loop of \<open>prepare_vhost_memory_user\<close>: a region and a descriptor for each entry.\<close>

fun open_regions ::
  "world \<Rightarrow> hugepage_file_info list \<Rightarrow> vhost_memory_region list \<times> int list \<times> world" where
  "open_regions w [] = ([], [], w)"
| "open_regions w (h # hs) =
     (case open_rdwr w (hp_path h) of
        (fd, w1) \<Rightarrow>
          (case open_regions w1 hs of
             (mrs, fds, w2) \<Rightarrow>
               (\<lparr>guest_phys_addr = hp_addr h, memory_size = hp_size h,
                 userspace_addr = hp_addr h, mmap_offset = 0\<rparr> # mrs, fd # fds, w2)))"

definition memory_bytes :: "u32 \<Rightarrow> u32 \<Rightarrow> vhost_memory_region list \<Rightarrow> byte list" where
  "memory_bytes nregions padding regions =
     u32_bytes nregions @ u32_bytes padding @ concat (map region_bytes regions)"

definition prepare_vhost_memory_user ::
  "world \<Rightarrow> vhost_user_msg \<Rightarrow> fault + int \<times> vhost_user_msg \<times> int list \<times> world" where
  "prepare_vhost_memory_user w msg =
     (case get_hugepage_file_info w (int VHOST_MEMORY_MAX_NREGIONS) of
        Inl f \<Rightarrow> Inl f
      | Inr (num, huges) \<Rightarrow>
          if num < 0 then Inr (- 1, msg, [], w)
          else (case open_regions w (take (nat num) huges) of
                  (mrs, fds, w') \<Rightarrow>
                    Inr (0, msg\<lparr>payload := memory_bytes (word_of_int num) 0 mrs\<rparr>, fds, w')))"

subsection \<open>The request dispatcher\<close>

text \<open>
  The members of \<^verbatim>\<open>struct virtio_user_dev\<close> (virtio\_user\_dev.h, not among the
  sources) that the dispatcher reads.
\<close>

record virtio_user_dev =
  vhostfd :: int
  is_server :: bool

text \<open>
  The \<^verbatim>\<open>switch (req)\<close> of \<open>vhost_user_sock\<close>. It starts from the message with the
  request, the version flag and size 0, and yields the message, the descriptor array (its
  entries set so far), \<^verbatim>\<open>fd_num\<close>, \<^verbatim>\<open>need_reply\<close> and the world; \<open>Inr None\<close> is a
  \<^verbatim>\<open>return -1\<close> from inside the switch.
\<close>

definition switch_req ::
  "world \<Rightarrow> vhost_user_request \<Rightarrow> arg \<Rightarrow> vhost_user_msg \<Rightarrow>
   fault + (vhost_user_msg \<times> int list \<times> int \<times> bool \<times> world) option" where
  "switch_req w req a msg =
     (let put_u64 = (case a of
            ArgU64 v \<Rightarrow>
              Inr (Some (msg\<lparr>payload := u64_bytes v, msg_size := word_of_nat sizeof_u64\<rparr>,
                         [], 0, False, w))
          | _ \<Rightarrow> Inl BadArgument);
          put_state = (\<lambda>need_reply. case a of
            ArgState st \<Rightarrow>
              Inr (Some (msg\<lparr>payload := state_bytes st, msg_size := word_of_nat sizeof_vring_state\<rparr>,
                         [], 0, need_reply, w))
          | _ \<Rightarrow> Inl BadArgument);
          put_file = (case a of
            ArgFile file \<Rightarrow>
              (let v = (ucast (file_index file AND VHOST_USER_VRING_IDX_MASK) :: u64);
                   sz = word_of_nat sizeof_u64
               in if 0 < file_fd file
                  then Inr (Some (msg\<lparr>payload := u64_bytes v, msg_size := sz\<rparr>,
                                  [file_fd file], 1, False, w))
                  else Inr (Some (msg\<lparr>payload := u64_bytes (v OR VHOST_USER_VRING_NOFD_MASK),
                                       msg_size := sz\<rparr>, [], 0, False, w)))
          | _ \<Rightarrow> Inl BadArgument)
      in case req of
           VHOST_USER_GET_FEATURES \<Rightarrow> Inr (Some (msg, [], 0, True, w))
         | VHOST_USER_SET_FEATURES \<Rightarrow> put_u64
         | VHOST_USER_SET_LOG_BASE \<Rightarrow> put_u64
         | VHOST_USER_SET_OWNER \<Rightarrow> Inr (Some (msg, [], 0, False, w))
         | VHOST_USER_RESET_OWNER \<Rightarrow> Inr (Some (msg, [], 0, False, w))
         | VHOST_USER_SET_MEM_TABLE \<Rightarrow>
             (case prepare_vhost_memory_user w msg of
                Inl f \<Rightarrow> Inl f
              | Inr (r, msg1, fds, w1) \<Rightarrow>
                  if r < 0 then Inr None
                  else
                    let fd_num = sint (bytes_u32 (payload msg1));
                        sz = 4 + 4 + ucast (word_of_int fd_num * word_of_nat sizeof_memory_region :: u64)
                    in Inr (Some (msg1\<lparr>msg_size := sz\<rparr>, fds, fd_num, False, w1)))
         | VHOST_USER_SET_LOG_FD \<Rightarrow>
             (case a of
                ArgInt fd \<Rightarrow> Inr (Some (msg, [fd], 1, False, w))
              | _ \<Rightarrow> Inl BadArgument)
         | VHOST_USER_SET_VRING_NUM \<Rightarrow> put_state False
         | VHOST_USER_SET_VRING_BASE \<Rightarrow> put_state False
         | VHOST_USER_SET_VRING_ENABLE \<Rightarrow> put_state False
         | VHOST_USER_GET_VRING_BASE \<Rightarrow> put_state True
         | VHOST_USER_SET_VRING_ADDR \<Rightarrow>
             (case a of
                ArgAddr ad \<Rightarrow>
                  Inr (Some (msg\<lparr>payload := addr_bytes ad, msg_size := word_of_nat sizeof_vring_addr\<rparr>,
                             [], 0, False, w))
              | _ \<Rightarrow> Inl BadArgument)
         | VHOST_USER_SET_VRING_KICK \<Rightarrow> put_file
         | VHOST_USER_SET_VRING_CALL \<Rightarrow> put_file
         | VHOST_USER_SET_VRING_ERR \<Rightarrow> put_file
         | VHOST_USER_OTHER c \<Rightarrow> Inr None)"

text \<open>The loop that closes the descriptors of a memory table.\<close>

definition close_fds :: "world \<Rightarrow> int list \<Rightarrow> world" where
  "close_fds w fds = foldl close_fd w fds"

text \<open>The second \<^verbatim>\<open>switch (req)\<close>: the reply is checked and copied into \<^verbatim>\<open>*arg\<close>.\<close>

definition copy_reply ::
  "vhost_user_request \<Rightarrow> vhost_user_msg \<Rightarrow> arg \<Rightarrow> fault + int \<times> arg" where
  "copy_reply req msg a =
     (case req of
        VHOST_USER_GET_FEATURES \<Rightarrow>
          if msg_size msg \<noteq> word_of_nat sizeof_u64 then Inr (- 1, a)
          else (case a of
                  ArgU64 _ \<Rightarrow> Inr (0, ArgU64 (bytes_u64 (payload msg)))
                | _ \<Rightarrow> Inl BadArgument)
      | VHOST_USER_GET_VRING_BASE \<Rightarrow>
          if msg_size msg \<noteq> word_of_nat sizeof_vring_state then Inr (- 1, a)
          else (case a of
                  ArgState _ \<Rightarrow> Inr (0, ArgState (bytes_state (payload msg)))
                | _ \<Rightarrow> Inl BadArgument)
      | _ \<Rightarrow> Inr (- 1, a))"

text \<open>
  \<open>vhost_user_sock\<close>: the value returned, what \<^verbatim>\<open>arg\<close> points to afterwards, and the
  world afterwards.
\<close>

definition vhost_user_sock ::
  "virtio_user_dev \<Rightarrow> world \<Rightarrow> vhost_user_request \<Rightarrow> arg \<Rightarrow> fault + int \<times> arg \<times> world" where
  "vhost_user_sock dev w0 req a =
     (let w = w0\<lparr>dispatch_log := dispatch_log w0 @ [(req, a)]\<rparr> in
      if is_server dev \<and> vhostfd dev < 0 then Inr (- 1, a, w)
      else
        case switch_req w req a
               \<lparr>request = request_code req, flags = VHOST_USER_VERSION, msg_size = 0, payload = []\<rparr> of
          Inl f \<Rightarrow> Inl f
        | Inr None \<Rightarrow> Inr (- 1, a, w)
        | Inr (Some (msg, fds, fd_num, need_reply, w1)) \<Rightarrow>
            let len = int (VHOST_USER_HDR_SIZE + unat (msg_size msg)) in
            (case vhost_user_write w1 (vhostfd dev) msg len fds fd_num of
               None \<Rightarrow> Inl NoReturn
             | Some (r, w2) \<Rightarrow>
                 if r < 0 then Inr (- 1, a, w2)
                 else
                   let w3 = (if req = VHOST_USER_SET_MEM_TABLE
                             then close_fds w2 (take (nat fd_num) fds) else w2) in
                   if need_reply then
                     (case vhost_user_read w3 (vhostfd dev) msg of
                        (r2, reply, w4) \<Rightarrow>
                          if r2 < 0 then Inr (- 1, a, w4)
                          else if request_code req \<noteq> request reply then Inr (- 1, a, w4)
                          else (case copy_reply req reply a of
                                  Inl f \<Rightarrow> Inl f
                                | Inr (r3, a') \<Rightarrow> Inr (r3, a', w4)))
                   else Inr (0, a, w3)))"

subsection \<open>The queue-pair helper\<close>

text \<open>
  The loop of \<open>vhost_user_enable_queue_pair\<close> over the values of \<^verbatim>\<open>i\<close> still to come:
  \<^verbatim>\<open>pair_idx * 2 + i\<close> is computed in \<^verbatim>\<open>int\<close> and stored in the unsigned index, as is
  \<^verbatim>\<open>enable\<close> in \<^verbatim>\<open>num\<close>.
\<close>

fun enable_loop :: "virtio_user_dev \<Rightarrow> world \<Rightarrow> u16 \<Rightarrow> int \<Rightarrow> int list \<Rightarrow> fault + int \<times> world" where
  "enable_loop dev w pair_idx enable [] = Inr (0, w)"
| "enable_loop dev w pair_idx enable (i # rest) =
     (let state = \<lparr>vring_index = word_of_int (uint pair_idx * 2 + i), vring_num = word_of_int enable\<rparr>
      in case vhost_user_sock dev w VHOST_USER_SET_VRING_ENABLE (ArgState state) of
           Inl f \<Rightarrow> Inl f
         | Inr (r, _, w') \<Rightarrow> if r \<noteq> 0 then Inr (- 1, w') else enable_loop dev w' pair_idx enable rest)"

definition vhost_user_enable_queue_pair ::
  "virtio_user_dev \<Rightarrow> world \<Rightarrow> u16 \<Rightarrow> int \<Rightarrow> fault + int \<times> world" where
  "vhost_user_enable_queue_pair dev w pair_idx enable = enable_loop dev w pair_idx enable [0, 1]"

subsection \<open>What the claims speak of\<close>

text \<open>The \<^verbatim>\<open>sendmsg\<close> calls made between two worlds.\<close>

definition sendmsg_calls :: "world \<Rightarrow> world \<Rightarrow> sendmsg_call list" where
  "sendmsg_calls w w' = drop (length (sendmsg_log w)) (sendmsg_log w')"

text \<open>The \<^verbatim>\<open>recv\<close> calls made between two worlds.\<close>

definition recv_calls :: "world \<Rightarrow> world \<Rightarrow> recv_call list" where
  "recv_calls w w' = drop (length (recv_log w)) (recv_log w')"

text \<open>
  The payload length the specification's table gives for a request kind (section 4.4),
  with \<open>nregions\<close> the region count of a memory table.
\<close>

fun documented_size :: "vhost_user_request \<Rightarrow> nat \<Rightarrow> nat" where
  "documented_size VHOST_USER_GET_FEATURES nregions = 0"
| "documented_size VHOST_USER_SET_OWNER nregions = 0"
| "documented_size VHOST_USER_RESET_OWNER nregions = 0"
| "documented_size VHOST_USER_SET_LOG_FD nregions = 0"
| "documented_size VHOST_USER_SET_FEATURES nregions = 8"
| "documented_size VHOST_USER_SET_LOG_BASE nregions = 8"
| "documented_size VHOST_USER_SET_VRING_KICK nregions = 8"
| "documented_size VHOST_USER_SET_VRING_CALL nregions = 8"
| "documented_size VHOST_USER_SET_VRING_ERR nregions = 8"
| "documented_size VHOST_USER_SET_VRING_NUM nregions = sizeof_vring_state"
| "documented_size VHOST_USER_SET_VRING_BASE nregions = sizeof_vring_state"
| "documented_size VHOST_USER_SET_VRING_ENABLE nregions = sizeof_vring_state"
| "documented_size VHOST_USER_GET_VRING_BASE nregions = sizeof_vring_state"
| "documented_size VHOST_USER_SET_VRING_ADDR nregions = sizeof_vring_addr"
| "documented_size VHOST_USER_SET_MEM_TABLE nregions = 8 + nregions * sizeof_memory_region"
| "documented_size (VHOST_USER_OTHER c) nregions = 0"

text \<open>
  The argument a request kind takes: what \<^verbatim>\<open>arg\<close> has to point to for the dispatcher to
  read it (or, for get-features and get-vring-base, to write the reply to it). No kind
  other than those of the switch is supported.
\<close>

fun arg_fits :: "vhost_user_request \<Rightarrow> arg \<Rightarrow> bool" where
  "arg_fits VHOST_USER_GET_FEATURES a = (case a of ArgU64 _ \<Rightarrow> True | _ \<Rightarrow> False)"
| "arg_fits VHOST_USER_SET_FEATURES a = (case a of ArgU64 _ \<Rightarrow> True | _ \<Rightarrow> False)"
| "arg_fits VHOST_USER_SET_LOG_BASE a = (case a of ArgU64 _ \<Rightarrow> True | _ \<Rightarrow> False)"
| "arg_fits VHOST_USER_SET_OWNER a = True"
| "arg_fits VHOST_USER_RESET_OWNER a = True"
| "arg_fits VHOST_USER_SET_MEM_TABLE a = True"
| "arg_fits VHOST_USER_SET_LOG_FD a = (case a of ArgInt _ \<Rightarrow> True | _ \<Rightarrow> False)"
| "arg_fits VHOST_USER_SET_VRING_NUM a = (case a of ArgState _ \<Rightarrow> True | _ \<Rightarrow> False)"
| "arg_fits VHOST_USER_SET_VRING_BASE a = (case a of ArgState _ \<Rightarrow> True | _ \<Rightarrow> False)"
| "arg_fits VHOST_USER_SET_VRING_ENABLE a = (case a of ArgState _ \<Rightarrow> True | _ \<Rightarrow> False)"
| "arg_fits VHOST_USER_GET_VRING_BASE a = (case a of ArgState _ \<Rightarrow> True | _ \<Rightarrow> False)"
| "arg_fits VHOST_USER_SET_VRING_ADDR a = (case a of ArgAddr _ \<Rightarrow> True | _ \<Rightarrow> False)"
| "arg_fits VHOST_USER_SET_VRING_KICK a = (case a of ArgFile _ \<Rightarrow> True | _ \<Rightarrow> False)"
| "arg_fits VHOST_USER_SET_VRING_CALL a = (case a of ArgFile _ \<Rightarrow> True | _ \<Rightarrow> False)"
| "arg_fits VHOST_USER_SET_VRING_ERR a = (case a of ArgFile _ \<Rightarrow> True | _ \<Rightarrow> False)"
| "arg_fits (VHOST_USER_OTHER c) a = False"

subsection \<open>Worlds and devices to run the code on\<close>

text \<open>
  A connected client whose peer takes every message whole and never answers, with no
  hugepage mapping.
\<close>

definition idle_world :: world where
  "idle_world =
     \<lparr>sendmsg_script = Sent 4096 ## sconst (Sent 4096), sendmsg_log = [],
      recv_script = sconst (Received []), recv_log = [], errno = 0,
      proc_self_maps = Some [], stat_size = (\<lambda>p. None), can_open = (\<lambda>p. False),
      open_fds = [0, 1, 2, 3], dispatch_log = []\<rparr>"

definition client_dev :: virtio_user_dev where
  "client_dev = \<lparr>vhostfd = 3, is_server = False\<rparr>"

text \<open>
  A connected client with two hugepage files mapped, the first of them in two pieces, among
  other mappings; \<^verbatim>\<open>stat\<close> fails on the second file. \<open>huge_call\<close> is the
  \<^verbatim>\<open>sendmsg\<close> call a set-mem-table makes there.
\<close>

definition huge_lines :: "string list" where
  "huge_lines =
     [''00400000-00452000 r-xp 00000000 08:02 173521      /usr/bin/dbus-daemon'' @ [CHR 0x0A],
      ''7f0000000000-7f0040000000 rw-s 00000000 00:0e 12345    /dev/hugepages/rtemap_0'' @ [CHR 0x0A],
      ''7f0040000000-7f0080000000 rw-s 00000000 00:0e 12346    /dev/hugepages/rtemap_1'' @ [CHR 0x0A],
      ''7f0080000000-7f00c0000000 rw-s 40000000 00:0e 12345    /dev/hugepages/rtemap_0'' @ [CHR 0x0A],
      ''7ffd1c0a0000-7ffd1c0c1000 rw-p 00000000 00:00 0                          [stack]'' @ [CHR 0x0A]]"

definition huge_world :: world where
  "huge_world =
     \<lparr>sendmsg_script = Sent 4096 ## sconst (Sent 4096), sendmsg_log = [],
      recv_script = sconst (Received []), recv_log = [], errno = 0,
      proc_self_maps = Some huge_lines,
      stat_size = (\<lambda>p. if p = ''/dev/hugepages/rtemap_0'' then Some 0x80000000 else None),
      can_open = (\<lambda>p. True),
      open_fds = [0, 1, 2, 3], dispatch_log = []\<rparr>"

definition huge_regions :: "vhost_memory_region list" where
  "huge_regions =
     [\<lparr>guest_phys_addr = 0x7f0000000000, memory_size = 0x80000000,
       userspace_addr = 0x7f0000000000, mmap_offset = 0\<rparr>,
      \<lparr>guest_phys_addr = 0x7f0040000000, memory_size = 0x40000000,
       userspace_addr = 0x7f0040000000, mmap_offset = 0\<rparr>]"

definition huge_call :: sendmsg_call where
  "huge_call =
     \<lparr>sm_sockfd = 3,
      sm_buf = \<lparr>request = 5, flags = 1, msg_size = 72, payload = memory_bytes 2 0 huge_regions\<rparr>,
      sm_len = 84, sm_fds = [4, 5]\<rparr>"

text \<open>The \<^verbatim>\<open>sendmsg\<close> call a set-owner makes on the connected client.\<close>

definition owner_call :: sendmsg_call where
  "owner_call =
     \<lparr>sm_sockfd = 3,
      sm_buf = \<lparr>request = 3, flags = 1, msg_size = 0, payload = []\<rparr>,
      sm_len = 12, sm_fds = []\<rparr>"

text \<open>
  A server whose peer has not connected yet, and the \<^verbatim>\<open>sendmsg\<close> call that enables ring
  \<open>i\<close> on the connected client.
\<close>

definition server_dev :: virtio_user_dev where
  "server_dev = \<lparr>vhostfd = - 1, is_server = True\<rparr>"

definition enable_call :: "u32 \<Rightarrow> sendmsg_call" where
  "enable_call i =
     \<lparr>sm_sockfd = 3,
      sm_buf = \<lparr>request = 18, flags = 1, msg_size = 8,
                payload = state_bytes \<lparr>vring_index = i, vring_num = 1\<rparr>\<rparr>,
      sm_len = 20, sm_fds = []\<rparr>"

text \<open>
  Worlds in which the peer has answered: \<open>hdr\<close> is there for the first \<^verbatim>\<open>recv\<close> and
  \<open>body\<close> for the second. One answer lacks the reply bit, one declares 265 bytes.
\<close>

definition reply_world :: "byte list \<Rightarrow> byte list \<Rightarrow> world" where
  "reply_world hdr body =
     idle_world\<lparr>recv_script := Received hdr ## Received body ## sconst (Received [])\<rparr>"

definition no_reply_bit :: world where
  "no_reply_bit =
     reply_world (hdr_bytes \<lparr>request = 1, flags = 1, msg_size = 8, payload = []\<rparr>) (u64_bytes 7)"

definition oversized :: world where
  "oversized =
     reply_world (hdr_bytes \<lparr>request = 1, flags = 5, msg_size = 265, payload = []\<rparr>) (u64_bytes 7)"

definition empty_msg :: vhost_user_msg where
  "empty_msg = \<lparr>request = 1, flags = 1, msg_size = 0, payload = []\<rparr>"

text \<open>
  Answers to get-features: one with 4 bytes of payload, one with the request of
  get-vring-base, and a well-formed one.
\<close>

definition short_features_reply :: world where
  "short_features_reply =
     reply_world (hdr_bytes \<lparr>request = 1, flags = 5, msg_size = 4, payload = []\<rparr>)
       (u32_bytes 7)"

definition wrong_request_reply :: world where
  "wrong_request_reply =
     reply_world (hdr_bytes \<lparr>request = 11, flags = 5, msg_size = 8, payload = []\<rparr>)
       (u64_bytes 7)"

definition features_reply :: world where
  "features_reply =
     reply_world (hdr_bytes \<lparr>request = 1, flags = 5, msg_size = 8, payload = []\<rparr>)
       (u64_bytes 7)"

text \<open>
  The idle world with another script for \<^verbatim>\<open>sendmsg\<close>, the call a set-features of 1
  makes there, and the errno of a peer that has gone.
\<close>

definition send_world :: "send_result stream \<Rightarrow> world" where
  "send_world script = idle_world\<lparr>sendmsg_script := script\<rparr>"

definition features_call :: sendmsg_call where
  "features_call =
     \<lparr>sm_sockfd = 3,
      sm_buf = \<lparr>request = 2, flags = 1, msg_size = 8, payload = u64_bytes 1\<rparr>,
      sm_len = 20, sm_fds = []\<rparr>"

definition EPIPE :: int where
  "EPIPE = 32"

text \<open>The world with the well-formed answer, where the first \<^verbatim>\<open>sendmsg\<close> takes 5 bytes.\<close>

definition short_send_features :: world where
  "short_send_features = features_reply\<lparr>sendmsg_script := Sent 5 ## sconst (Sent 4096)\<rparr>"

text \<open>The world with the two hugepage files, where the peer has gone.\<close>

definition broken_pipe :: world where
  "broken_pipe = huge_world\<lparr>sendmsg_script := SendFailed EPIPE ## sconst (Sent 4096)\<rparr>"

text \<open>
  A line of the mapping table that maps a hugepage file: its address range and its path.
  The lines the scan lets through are these.
\<close>

definition hugepage_line :: "string \<Rightarrow> (u64 \<times> u64 \<times> string) option" where
  "hugepage_line buf =
     (case sscanf_range buf of
        None \<Rightarrow> None
      | Some (v_start, v_end) \<Rightarrow>
          (case path_field buf of
             None \<Rightarrow> None
           | Some tmp \<Rightarrow> if hugefile_match tmp then Some (v_start, v_end, tmp) else None))"

text \<open>The paths of the hugepage lines of a table, in its order, with their repetitions.\<close>

definition hugepage_paths :: "string list \<Rightarrow> string list" where
  "hugepage_paths lines = map (\<lambda>(s, e, p). p) (List.map_filter hugepage_line lines)"

text \<open>
  One entry for each path, made from the first mapping seen with it: what the
  specification asks of the scan (section 4.1), before the sizes are corrected.
\<close>

fun first_seen ::
  "(u64 \<times> u64 \<times> string) list \<Rightarrow> hugepage_file_info list \<Rightarrow> hugepage_file_info list" where
  "first_seen [] acc = acc"
| "first_seen ((s, e, p) # rest) acc =
     (if p \<in> hp_path ` set acc then first_seen rest acc
      else first_seen rest (acc @ [\<lparr>hp_addr = s, hp_size = e - s, hp_path = p\<rparr>]))"

text \<open>A table in which every line that has an address range has the five blanks too.\<close>

definition well_spaced :: "string list \<Rightarrow> bool" where
  "well_spaced lines = list_all (\<lambda>buf. sscanf_range buf = None \<or> path_field buf \<noteq> None) lines"

text \<open>A table whose hugepage paths all fit the \<^verbatim>\<open>path\<close> member.\<close>

definition paths_fit :: "string list \<Rightarrow> bool" where
  "paths_fit lines = list_all (\<lambda>p. length p < PATH_MAX) (hugepage_paths lines)"

text \<open>
  Mapping tables that make the discovery fail: nine hugepage files, and a line without an
  address range; and the idle world with a mapping table of one's choice (or none).
\<close>

definition nine_lines :: "string list" where
  "nine_lines =
     [''7f0000000000-7f0040000000 rw-s 00000000 00:0e 12340    /dev/hugepages/rtemap_0'' @ [CHR 0x0A],
      ''7f0040000000-7f0080000000 rw-s 00000000 00:0e 12341    /dev/hugepages/rtemap_1'' @ [CHR 0x0A],
      ''7f0080000000-7f00c0000000 rw-s 00000000 00:0e 12342    /dev/hugepages/rtemap_2'' @ [CHR 0x0A],
      ''7f00c0000000-7f0100000000 rw-s 00000000 00:0e 12343    /dev/hugepages/rtemap_3'' @ [CHR 0x0A],
      ''7f0100000000-7f0140000000 rw-s 00000000 00:0e 12344    /dev/hugepages/rtemap_4'' @ [CHR 0x0A],
      ''7f0140000000-7f0180000000 rw-s 00000000 00:0e 12345    /dev/hugepages/rtemap_5'' @ [CHR 0x0A],
      ''7f0180000000-7f01c0000000 rw-s 00000000 00:0e 12346    /dev/hugepages/rtemap_6'' @ [CHR 0x0A],
      ''7f01c0000000-7f0200000000 rw-s 00000000 00:0e 12347    /dev/hugepages/rtemap_7'' @ [CHR 0x0A],
      ''7f0200000000-7f0240000000 rw-s 00000000 00:0e 12348    /dev/hugepages/rtemap_8'' @ [CHR 0x0A]]"

definition garbled_lines :: "string list" where
  "garbled_lines =
     [''7f0000000000-7f0040000000 rw-s 00000000 00:0e 12340    /dev/hugepages/rtemap_0'' @ [CHR 0x0A],
      ''vsyscall rw-s 00000000 00:0e 12341    /dev/hugepages/rtemap_1'' @ [CHR 0x0A]]"

definition maps_world :: "string list option \<Rightarrow> world" where
  "maps_world m = idle_world\<lparr>proc_self_maps := m\<rparr>"

text \<open>
  A line of the mapping table as the kernel writes it for a shared mapping: the address
  range, the permissions, the offset, the device, the inode, blanks and the path.
\<close>

definition maps_line :: "string \<Rightarrow> string \<Rightarrow> string" where
  "maps_line addrs p = addrs @ '' rw-s 00000000 00:0e 12345    '' @ p @ [CHR 0x0A]"

text \<open>
  Two paths of hugepage files below a long directory name: \<open>cut_path\<close> has
  \<^verbatim>\<open>PATH_MAX - 1\<close> characters, \<open>long_path\<close> one more, and the first is what
  \<^verbatim>\<open>snprintf\<close> keeps of the second.
\<close>

definition long_prefix :: string where
  "long_prefix = ''/dev/hugepages/'' @ replicate 4072 (CHR ''a'')"

definition cut_path :: string where
  "cut_path = long_prefix @ ''rtemap_0''"

definition long_path :: string where
  "long_path = long_prefix @ ''rtemap_00''"

text \<open>The file with the long path mapped in two pieces.\<close>

definition two_long :: "string list" where
  "two_long =
     [maps_line ''7f0000000000-7f0040000000'' long_path,
      maps_line ''7f0040000000-7f0080000000'' long_path]"

text \<open>Nine hugepage files, the first with the long path and the second with the cut one.\<close>

definition nine_deep :: "string list" where
  "nine_deep =
     [maps_line ''7f0000000000-7f0040000000'' long_path,
      maps_line ''7f0040000000-7f0080000000'' cut_path,
      maps_line ''7f0080000000-7f00c0000000'' ''/dev/hugepages/rtemap_2'',
      maps_line ''7f00c0000000-7f0100000000'' ''/dev/hugepages/rtemap_3'',
      maps_line ''7f0100000000-7f0140000000'' ''/dev/hugepages/rtemap_4'',
      maps_line ''7f0140000000-7f0180000000'' ''/dev/hugepages/rtemap_5'',
      maps_line ''7f0180000000-7f01c0000000'' ''/dev/hugepages/rtemap_6'',
      maps_line ''7f01c0000000-7f0200000000'' ''/dev/hugepages/rtemap_7'',
      maps_line ''7f0200000000-7f0240000000'' ''/dev/hugepages/rtemap_8'']"

text \<open>A line that ends behind its address range, before a line without one.\<close>

definition bare_lines :: "string list" where
  "bare_lines =
     [''7f0000000000-7f0040000000'' @ [CHR 0x0A],
      ''vsyscall rw-s 00000000 00:0e 12341    /dev/hugepages/rtemap_1'' @ [CHR 0x0A]]"

subsection \<open>Scripts of the socket\<close>

text \<open>
  What one call of \<^verbatim>\<open>sendmsg\<close> returns for a buffer of \<open>len\<close> bytes, given its outcome.
\<close>

definition send_value :: "send_result \<Rightarrow> int \<Rightarrow> int" where
  "send_value res len = (case res of Sent n \<Rightarrow> int (min n (nat len)) | SendFailed _ \<Rightarrow> - 1)"

text \<open>
  A script in which \<^verbatim>\<open>sendmsg\<close> is not interrupted for ever: after any number of calls
  there is still a call that is not interrupted.
\<close>

definition keeps_sending :: "send_result stream \<Rightarrow> bool" where
  "keeps_sending s = (\<forall>n. \<exists>k. s !! (n + k) \<noteq> SendFailed EINTR)"

section \<open>Properties\<close>

subsection \<open>Bytes\<close>

lemma length_u32_bytes [simp]: "length (u32_bytes x) = 4"
  by (simp add: u32_bytes_def)

lemma length_u64_bytes [simp]: "length (u64_bytes x) = 8"
  by (simp add: u64_bytes_def)

text \<open>A word is its low byte and the rest; decoding undoes encoding.\<close>

lemma byte_split:
  "(ucast (ucast y :: byte) :: 'a::len word) OR push_bit 8 (drop_bit 8 y) = y"
proof (rule bit_word_eqI)
  fix n
  assume n: "n < LENGTH('a)"
  show "bit ((ucast (ucast y :: byte) :: 'a word) OR push_bit 8 (drop_bit 8 y)) n = bit y n"
  proof (cases "n < 8")
    case True
    with n show ?thesis by (auto simp: bit_simps)
  next
    case False
    then have "8 + (n - 8) = n" by simp
    with False n show ?thesis by (auto simp: bit_simps)
  qed
qed

lemma byte_split_drop:
  "(ucast (ucast (drop_bit k y) :: byte) :: 'a::len word) OR push_bit 8 (drop_bit (k + 8) y) =
   drop_bit k y"
  using byte_split [of "drop_bit k y"] by (simp add: drop_bit_drop_bit add.commute)

lemma byte_top32: "(ucast (ucast (drop_bit 24 x) :: byte) :: u32) = drop_bit 24 x"
  by (rule bit_word_eqI) (auto simp: bit_simps dest: bit_imp_le_length)

lemma byte_top64: "(ucast (ucast (drop_bit 56 x) :: byte) :: u64) = drop_bit 56 x"
  by (rule bit_word_eqI) (auto simp: bit_simps dest: bit_imp_le_length)

lemma bytes_u32_u32_bytes [simp]: "bytes_u32 (u32_bytes x @ ys) = x"
  using byte_split_drop [of 16 x] byte_split_drop [of 8 x] byte_split [of x]
  by (simp add: bytes_u32_def u32_bytes_def byte_top32)

lemma bytes_u64_u64_bytes [simp]: "bytes_u64 (u64_bytes x @ ys) = x"
  using byte_split_drop [of 48 x] byte_split_drop [of 40 x] byte_split_drop [of 32 x]
    byte_split_drop [of 24 x] byte_split_drop [of 16 x] byte_split_drop [of 8 x] byte_split [of x]
  by (simp add: bytes_u64_def u64_bytes_def byte_top64)

lemma length_state_bytes [simp]: "length (state_bytes s) = 8"
  by (simp add: state_bytes_def)

lemma length_addr_bytes [simp]: "length (addr_bytes a) = 40"
  by (simp add: addr_bytes_def)

lemma length_region_bytes [simp]: "length (region_bytes r) = 32"
  by (simp add: region_bytes_def)

lemma length_concat_region_bytes [simp]:
  "length (concat (map region_bytes rs)) = 32 * length rs"
  by (induction rs) simp_all

lemma length_memory_bytes [simp]: "length (memory_bytes n p rs) = 8 + 32 * length rs"
  by (simp add: memory_bytes_def)

subsection \<open>The transport\<close>

lemma sendmsg_world:
  assumes "sendmsg w c = (r, w')"
  shows "\<exists>e. w' = w\<lparr>sendmsg_script := stl (sendmsg_script w),
                      sendmsg_log := sendmsg_log w @ [c], errno := e\<rparr>"
proof (cases "shd (sendmsg_script w)")
  case (Sent n)
  with assms have "w' = w\<lparr>sendmsg_script := stl (sendmsg_script w), sendmsg_log := sendmsg_log w @ [c]\<rparr>"
    by (simp add: sendmsg_def Let_def)
  then have "w' = w\<lparr>sendmsg_script := stl (sendmsg_script w), sendmsg_log := sendmsg_log w @ [c],
                     errno := errno w\<rparr>"
    by simp
  then show ?thesis ..
next
  case (SendFailed e)
  with assms have "w' = w\<lparr>sendmsg_script := stl (sendmsg_script w), sendmsg_log := sendmsg_log w @ [c],
                           errno := e\<rparr>"
    by (simp add: sendmsg_def Let_def)
  then show ?thesis ..
qed

text \<open>Whenever the retry loop returns, it has made one call or more, all the same.\<close>

lemma sendmsg_retry_world:
  "sendmsg_retry w c = Some (r, w') \<Longrightarrow>
   \<exists>k e. w' = w\<lparr>sendmsg_script := sdrop (Suc k) (sendmsg_script w),
                  sendmsg_log := sendmsg_log w @ replicate (Suc k) c, errno := e\<rparr>"
proof (induct w c "(r, w')" rule: sendmsg_retry.raw_induct[rotated 1, consumes 1, case_names step])
  case (step retry w c)
  obtain r1 w1 where s: "sendmsg w c = (r1, w1)" by (cases "sendmsg w c")
  from sendmsg_world[OF s] obtain e1 where
    w1: "w1 = w\<lparr>sendmsg_script := stl (sendmsg_script w), sendmsg_log := sendmsg_log w @ [c],
                  errno := e1\<rparr>" ..
  show ?case
  proof (cases "r1 < 0 \<and> errno w1 = EINTR")
    case True
    with step(2) s have "retry w1 c = Some (r, w')" by simp
    from step(1)[OF this] obtain k e where
      "w' = w1\<lparr>sendmsg_script := sdrop (Suc k) (sendmsg_script w1),
                sendmsg_log := sendmsg_log w1 @ replicate (Suc k) c, errno := e\<rparr>" by blast
    then have "w' = w\<lparr>sendmsg_script := sdrop (Suc (Suc k)) (sendmsg_script w),
                       sendmsg_log := sendmsg_log w @ replicate (Suc (Suc k)) c, errno := e\<rparr>"
      by (simp add: w1)
    then show ?thesis by blast
  next
    case False
    with step(2) s have "w' = w1" by auto
    with w1 have "w' = w\<lparr>sendmsg_script := sdrop (Suc 0) (sendmsg_script w),
                     sendmsg_log := sendmsg_log w @ replicate (Suc 0) c, errno := e1\<rparr>"
      by simp
    then show ?thesis by blast
  qed
qed

text \<open>
  The loop returns as soon as a call is not interrupted: after \<open>k\<close> interrupted calls it
  returns what call \<open>k + 1\<close> returned.
\<close>

lemma sendmsg_retry_returns:
  assumes "sendmsg_script w = replicate k (SendFailed EINTR) @- (res ## rest)"
    and "res \<noteq> SendFailed EINTR"
  shows "\<exists>e. sendmsg_retry w c =
           Some (send_value res (sm_len c),
                 w\<lparr>sendmsg_script := rest, sendmsg_log := sendmsg_log w @ replicate (Suc k) c,
                    errno := e\<rparr>)"
  using assms(1)
proof (induct k arbitrary: w)
  case 0
  then have hd: "shd (sendmsg_script w) = res" and tl: "stl (sendmsg_script w) = rest" by simp_all
  show ?case
  proof (cases res)
    case (Sent n)
    with hd tl have "sendmsg_retry w c =
        Some (int (min n (nat (sm_len c))),
              w\<lparr>sendmsg_script := rest, sendmsg_log := sendmsg_log w @ [c], errno := errno w\<rparr>)"
      by (subst sendmsg_retry.simps) (simp add: sendmsg_def Let_def)
    with Sent show ?thesis by (auto simp: send_value_def intro!: exI[of _ "errno w"])
  next
    case (SendFailed x)
    with assms(2) have "x \<noteq> EINTR" by simp
    with SendFailed hd tl have "sendmsg_retry w c =
        Some (- 1, w\<lparr>sendmsg_script := rest, sendmsg_log := sendmsg_log w @ [c], errno := x\<rparr>)"
      by (subst sendmsg_retry.simps) (simp add: sendmsg_def Let_def)
    with SendFailed show ?thesis by (auto simp: send_value_def)
  qed
next
  case (Suc k)
  let ?w1 = "w\<lparr>sendmsg_script := stl (sendmsg_script w), sendmsg_log := sendmsg_log w @ [c],
                errno := EINTR\<rparr>"
  from Suc(2) have hd: "shd (sendmsg_script w) = SendFailed EINTR"
    and tl: "sendmsg_script ?w1 = replicate k (SendFailed EINTR) @- (res ## rest)" by simp_all
  from hd have step: "sendmsg_retry w c = sendmsg_retry ?w1 c"
    by (subst sendmsg_retry.simps) (simp add: sendmsg_def Let_def)
  from Suc(1)[OF tl] obtain e where
    "sendmsg_retry ?w1 c =
       Some (send_value res (sm_len c),
             ?w1\<lparr>sendmsg_script := rest, sendmsg_log := sendmsg_log ?w1 @ replicate (Suc k) c,
                  errno := e\<rparr>)" ..
  with step have "sendmsg_retry w c =
       Some (send_value res (sm_len c),
             w\<lparr>sendmsg_script := rest, sendmsg_log := sendmsg_log w @ replicate (Suc (Suc k)) c,
                  errno := e\<rparr>)"
    by simp
  then show ?case ..
qed

subsection \<open>Kick, call and error descriptors\<close>

text \<open>
  C5. For set-vring-kick, set-vring-call and set-vring-err with the argument
  \<open>{index, fd}\<close>, on a channel that is connected and once \<^verbatim>\<open>sendmsg\<close> is no longer
  interrupted: the dispatcher returns, and every \<^verbatim>\<open>sendmsg\<close> it made carries the header
  with size 8 and as payload the 64-bit scalar made of the index masked to its low 8 bits.
  If \<open>fd\<close> is positive the descriptor is attached and the no-descriptor bit stays clear;
  otherwise no descriptor is attached and the no-descriptor bit is set in the scalar.
\<close>

theorem set_vring_file_message:
  assumes req: "req = VHOST_USER_SET_VRING_KICK \<or> req = VHOST_USER_SET_VRING_CALL \<or>
      req = VHOST_USER_SET_VRING_ERR"
    and conn: "\<not> (is_server dev \<and> vhostfd dev < 0)"
    and script: "sendmsg_script w = replicate k (SendFailed EINTR) @- (res ## rest)"
    and res: "res \<noteq> SendFailed EINTR"
  shows "\<exists>e. vhost_user_sock dev w req (ArgFile file) =
           Inr (if send_value res 20 < 0 then - 1 else 0, ArgFile file,
                w\<lparr>sendmsg_script := rest,
                  sendmsg_log := sendmsg_log w @ replicate (Suc k)
                    \<lparr>sm_sockfd = vhostfd dev,
                     sm_buf = \<lparr>request = request_code req, flags = VHOST_USER_VERSION, msg_size = 8,
                               payload = u64_bytes
                                 (if 0 < file_fd file
                                  then ucast (file_index file AND VHOST_USER_VRING_IDX_MASK)
                                  else ucast (file_index file AND VHOST_USER_VRING_IDX_MASK) OR
                                       VHOST_USER_VRING_NOFD_MASK)\<rparr>,
                     sm_len = 20,
                     sm_fds = (if 0 < file_fd file then [file_fd file] else [])\<rparr>,
                  errno := e,
                  dispatch_log := dispatch_log w @ [(req, ArgFile file)]\<rparr>)"
proof -
  let ?w = "w\<lparr>dispatch_log := dispatch_log w @ [(req, ArgFile file)]\<rparr>"
  let ?c = "\<lparr>sm_sockfd = vhostfd dev,
             sm_buf = \<lparr>request = request_code req, flags = VHOST_USER_VERSION, msg_size = 8,
                       payload = u64_bytes
                         (if 0 < file_fd file
                          then ucast (file_index file AND VHOST_USER_VRING_IDX_MASK)
                          else ucast (file_index file AND VHOST_USER_VRING_IDX_MASK) OR
                               VHOST_USER_VRING_NOFD_MASK)\<rparr>,
             sm_len = 20,
             sm_fds = (if 0 < file_fd file then [file_fd file] else [])\<rparr>"
  from script have "sendmsg_script ?w = replicate k (SendFailed EINTR) @- (res ## rest)" by simp
  from sendmsg_retry_returns [OF this res, of ?c] obtain e where
    sent: "sendmsg_retry ?w ?c =
      Some (send_value res 20,
            ?w\<lparr>sendmsg_script := rest, sendmsg_log := sendmsg_log ?w @ replicate (Suc k) ?c,
               errno := e\<rparr>)" by auto
  have "vhost_user_sock dev w req (ArgFile file) =
      Inr (if send_value res 20 < 0 then - 1 else 0, ArgFile file,
           ?w\<lparr>sendmsg_script := rest, sendmsg_log := sendmsg_log ?w @ replicate (Suc k) ?c,
              errno := e\<rparr>)"
    using req conn sent
    by (auto simp: vhost_user_sock_def switch_req_def vhost_user_write_def Let_def
        sizeof_u64_def VHOST_USER_HDR_SIZE_def)
  then show ?thesis by (intro exI[of _ e]) simp
qed


theorem set_vring_file_message_witness:
  "(\<exists>e. vhost_user_sock client_dev idle_world VHOST_USER_SET_VRING_KICK
          (ArgFile \<lparr>file_index = 3, file_fd = - 1\<rparr>) =
        Inr (0, ArgFile \<lparr>file_index = 3, file_fd = - 1\<rparr>,
             idle_world\<lparr>sendmsg_script := sconst (Sent 4096),
               sendmsg_log :=
                 [\<lparr>sm_sockfd = 3,
                   sm_buf = \<lparr>request = 12, flags = 1, msg_size = 8, payload = u64_bytes 259\<rparr>,
                   sm_len = 20, sm_fds = []\<rparr>],
               errno := e,
               dispatch_log :=
                 [(VHOST_USER_SET_VRING_KICK, ArgFile \<lparr>file_index = 3, file_fd = - 1\<rparr>)]\<rparr>)) \<and>
   (\<exists>e. vhost_user_sock client_dev idle_world VHOST_USER_SET_VRING_KICK
          (ArgFile \<lparr>file_index = 3, file_fd = 7\<rparr>) =
        Inr (0, ArgFile \<lparr>file_index = 3, file_fd = 7\<rparr>,
             idle_world\<lparr>sendmsg_script := sconst (Sent 4096),
               sendmsg_log :=
                 [\<lparr>sm_sockfd = 3,
                   sm_buf = \<lparr>request = 12, flags = 1, msg_size = 8, payload = u64_bytes 3\<rparr>,
                   sm_len = 20, sm_fds = [7]\<rparr>],
               errno := e,
               dispatch_log :=
                 [(VHOST_USER_SET_VRING_KICK, ArgFile \<lparr>file_index = 3, file_fd = 7\<rparr>)]\<rparr>))"
proof -
  have s: "sendmsg_script idle_world = replicate 0 (SendFailed EINTR) @- (Sent 4096 ## sconst (Sent 4096))"
    by (simp add: idle_world_def)
  have c: "\<not> (is_server client_dev \<and> vhostfd client_dev < 0)"
    by (simp add: client_dev_def)
  show ?thesis
    using set_vring_file_message [OF _ c s, of VHOST_USER_SET_VRING_KICK "\<lparr>file_index = 3, file_fd = - 1\<rparr>"]
      set_vring_file_message [OF _ c s, of VHOST_USER_SET_VRING_KICK "\<lparr>file_index = 3, file_fd = 7\<rparr>"]
    by (simp add: send_value_def client_dev_def idle_world_def VHOST_USER_VERSION_def
        VHOST_USER_VRING_IDX_MASK_def VHOST_USER_VRING_NOFD_MASK_def)
qed

subsection \<open>Memory discovery: how many entries, and what the calls leave alone\<close>

lemma scan_maps_idx:
  "scan_maps maxn lines huges = Inr (idx, hs) \<Longrightarrow> 0 \<le> idx \<Longrightarrow> idx = int (length hs)"
  by (induction lines arbitrary: huges) (auto split: option.splits if_splits)

lemma scan_maps_bound:
  "scan_maps maxn lines huges = Inr (idx, hs) \<Longrightarrow> 0 \<le> idx \<Longrightarrow>
   int (length huges) \<le> maxn \<Longrightarrow> int (length hs) \<le> maxn"
proof (induction lines arbitrary: huges)
  case Nil
  then show ?case by auto
next
  case (Cons buf rest)
  show ?case
  proof (cases "sscanf_range buf")
    case None
    with Cons.prems show ?thesis by simp
  next
    case (Some range)
    obtain v_start v_end where range: "range = (v_start, v_end)" by (cases range)
    show ?thesis
    proof (cases "path_field buf")
      case None
      with Cons.prems Some range show ?thesis by simp
    next
      case tmp: (Some tmp)
      let ?new = "huges @ [\<lparr>hp_addr = v_start, hp_size = v_end - v_start,
                            hp_path = take (PATH_MAX - 1) tmp\<rparr>]"
      consider (skip) "scan_maps maxn rest huges = Inr (idx, hs)"
        | (add) "int (length huges) < maxn" "scan_maps maxn rest ?new = Inr (idx, hs)"
        using Cons.prems Some range tmp by (auto split: if_splits)
      then show ?thesis
      proof cases
        case skip
        from Cons.IH [OF skip Cons.prems(2,3)] show ?thesis .
      next
        case add
        from add(1) have "int (length ?new) \<le> maxn" by simp
        from Cons.IH [OF add(2) Cons.prems(2) this] show ?thesis .
      qed
    qed
  qed
qed

lemma scan_maps_count:
  "scan_maps maxn lines huges = Inr (idx, hs) \<Longrightarrow> 0 \<le> idx \<Longrightarrow>
   idx = int (length hs) \<and> (int (length huges) \<le> maxn \<longrightarrow> int (length hs) \<le> maxn)"
  using scan_maps_idx scan_maps_bound by blast

lemma world_open_fds_same: "\<exists>X. w = w\<lparr>open_fds := X\<rparr>"
  by (rule exI [of _ "open_fds w"]) simp

lemma get_hugepage_file_info_count:
  assumes "get_hugepage_file_info w maxn = Inr (num, huges)" and "0 \<le> num" and "0 \<le> maxn"
  shows "num = int (length huges) \<and> num \<le> maxn"
proof -
  from assms(1,2) obtain lines hs where
    s: "scan_maps maxn lines [] = Inr (num, hs)" and h: "huges = map (correct_size w) hs"
    by (auto simp: get_hugepage_file_info_def split: option.splits sum.splits if_splits)
  from scan_maps_count [OF s assms(2)] assms(3) h show ?thesis by simp
qed

lemma open_rdwr_world: "open_rdwr w p = (fd, w') \<Longrightarrow> \<exists>X. w' = w\<lparr>open_fds := X\<rparr>"
proof -
  assume a: "open_rdwr w p = (fd, w')"
  show ?thesis
  proof (cases "can_open w p")
    case True
    with a have "w' = w\<lparr>open_fds := lowest_free (open_fds w) # open_fds w\<rparr>"
      by (auto simp add: open_rdwr_def Let_def)
    then show ?thesis ..
  next
    case False
    with a have "w' = w" by (simp add: open_rdwr_def)
    then show ?thesis by (simp add: world_open_fds_same)
  qed
qed

lemma open_regions_world:
  "open_regions w hs = (mrs, fds, w') \<Longrightarrow>
   length mrs = length hs \<and> length fds = length hs \<and> (\<exists>X. w' = w\<lparr>open_fds := X\<rparr>)"
proof (induction hs arbitrary: w mrs fds w')
  case Nil
  then show ?case by (simp add: world_open_fds_same)
next
  case (Cons h hs)
  obtain fd w1 where o: "open_rdwr w (hp_path h) = (fd, w1)" by (cases "open_rdwr w (hp_path h)")
  obtain mrs2 fds2 w2 where r: "open_regions w1 hs = (mrs2, fds2, w2)"
    by (cases "open_regions w1 hs") auto
  from Cons.prems o r have eq: "mrs = \<lparr>guest_phys_addr = hp_addr h, memory_size = hp_size h,
                 userspace_addr = hp_addr h, mmap_offset = 0\<rparr> # mrs2" "fds = fd # fds2" "w' = w2"
    by simp_all
  from open_rdwr_world [OF o] obtain X1 where w1: "w1 = w\<lparr>open_fds := X1\<rparr>" ..
  from Cons.IH [OF r] obtain X2 where l: "length mrs2 = length hs" "length fds2 = length hs"
    and w2: "w2 = w1\<lparr>open_fds := X2\<rparr>" by auto
  from w1 w2 eq have "w' = w\<lparr>open_fds := X2\<rparr>" by simp
  with l eq show ?case by auto
qed

lemma prepare_vhost_memory_user_result:
  assumes "prepare_vhost_memory_user w msg = Inr (r, msg1, fds, w1)" and "0 \<le> r"
  shows "\<exists>n mrs X. n \<le> VHOST_MEMORY_MAX_NREGIONS \<and> length mrs = n \<and> length fds = n \<and>
           msg1 = msg\<lparr>payload := memory_bytes (word_of_nat n) 0 mrs\<rparr> \<and> w1 = w\<lparr>open_fds := X\<rparr>"
proof -
  from assms obtain num huges mrs where
    g: "get_hugepage_file_info w (int VHOST_MEMORY_MAX_NREGIONS) = Inr (num, huges)"
    and n: "0 \<le> num"
    and o: "open_regions w (take (nat num) huges) = (mrs, fds, w1)"
    and m: "msg1 = msg\<lparr>payload := memory_bytes (word_of_int num) 0 mrs\<rparr>"
    by (auto simp: prepare_vhost_memory_user_def split: sum.splits if_splits prod.splits)
  from get_hugepage_file_info_count [OF g n] have c: "num = int (length huges)"
    "num \<le> int VHOST_MEMORY_MAX_NREGIONS" by simp_all
  from open_regions_world [OF o] c obtain X where
    l: "length mrs = nat num" "length fds = nat num" and w: "w1 = w\<lparr>open_fds := X\<rparr>" by auto
  from c n m have "msg1 = msg\<lparr>payload := memory_bytes (word_of_nat (nat num)) 0 mrs\<rparr>"
    by simp
  with l w c n show ?thesis
    by (intro exI[of _ "nat num"] exI[of _ mrs] exI[of _ X]) auto
qed

lemma nregions_size:
  assumes "n \<le> 8"
  shows "sint (word_of_nat n :: u32) = int n"
    and "unat (4 + 4 + ucast (word_of_int (int n) * word_of_nat 32 :: u64) :: u32) = 8 + 32 * n"
proof -
  from assms have "n \<in> {0, 1, 2, 3, 4, 5, 6, 7, 8}" by auto
  then show "sint (word_of_nat n :: u32) = int n"
    and "unat (4 + 4 + ucast (word_of_int (int n) * word_of_nat 32 :: u64) :: u32) = 8 + 32 * n"
    by auto
qed

subsection \<open>The dispatcher: what is built and what is left alone\<close>

lemma close_fds_world: "\<exists>X. close_fds w fds = w\<lparr>open_fds := X\<rparr>"
  unfolding close_fds_def
proof (induction fds arbitrary: w)
  case Nil
  show ?case by (simp add: world_open_fds_same)
next
  case (Cons fd fds)
  from Cons [of "close_fd w fd"] obtain X where
    "foldl close_fd (close_fd w fd) fds = (close_fd w fd)\<lparr>open_fds := X\<rparr>" ..
  then have "foldl close_fd w (fd # fds) = w\<lparr>open_fds := X\<rparr>"
    by (simp add: close_fd_def)
  then show ?case ..
qed

lemma recv_world:
  assumes "recv w fd len = (r, bs, w')"
  shows "\<exists>e. w' = w\<lparr>recv_script := stl (recv_script w),
                      recv_log := recv_log w @ [\<lparr>rc_sockfd = fd, rc_len = len\<rparr>], errno := e\<rparr>"
proof (cases "shd (recv_script w)")
  case (Received bs)
  with assms have "w' = w\<lparr>recv_script := stl (recv_script w),
                      recv_log := recv_log w @ [\<lparr>rc_sockfd = fd, rc_len = len\<rparr>]\<rparr>"
    by (auto simp add: recv_def Let_def)
  then have "w' = w\<lparr>recv_script := stl (recv_script w),
                      recv_log := recv_log w @ [\<lparr>rc_sockfd = fd, rc_len = len\<rparr>], errno := errno w\<rparr>"
    by simp
  then show ?thesis ..
next
  case (RecvFailed e)
  with assms have "w' = w\<lparr>recv_script := stl (recv_script w),
                      recv_log := recv_log w @ [\<lparr>rc_sockfd = fd, rc_len = len\<rparr>], errno := e\<rparr>"
    by (auto simp add: recv_def Let_def)
  then show ?thesis ..
qed

lemma vhost_user_read_world:
  assumes "vhost_user_read w fd msg = (r, msg', w')"
  shows "\<exists>s l e. w' = w\<lparr>recv_script := s, recv_log := l, errno := e\<rparr>"
proof -
  obtain ret hdr w1 where h: "recv w fd VHOST_USER_HDR_SIZE = (ret, hdr, w1)"
    by (cases "recv w fd VHOST_USER_HDR_SIZE") auto
  from recv_world [OF h] obtain e1 where
    w1: "w1 = w\<lparr>recv_script := stl (recv_script w),
                recv_log := recv_log w @ [\<lparr>rc_sockfd = fd, rc_len = VHOST_USER_HDR_SIZE\<rparr>],
                errno := e1\<rparr>" ..
  let ?n = "unat (word_of_int (sint (msg_size (read_header msg hdr))) :: u64)"
  obtain ret2 body w2 where b: "recv w1 fd ?n = (ret2, body, w2)"
    by (cases "recv w1 fd ?n") auto
  from recv_world [OF b] obtain e2 where
    w2: "w2 = w1\<lparr>recv_script := stl (recv_script w1),
                recv_log := recv_log w1 @ [\<lparr>rc_sockfd = fd, rc_len = ?n\<rparr>], errno := e2\<rparr>" ..
  from assms h b have "w' = w1 \<or> w' = w2"
    by (auto simp: vhost_user_read_def Let_def split: if_splits)
  then show ?thesis
  proof
    assume "w' = w1"
    with w1 show ?thesis by blast
  next
    assume "w' = w2"
    with w1 w2 have "w' = w\<lparr>recv_script := stl (stl (recv_script w)),
        recv_log := recv_log w @ [\<lparr>rc_sockfd = fd, rc_len = VHOST_USER_HDR_SIZE\<rparr>,
                                  \<lparr>rc_sockfd = fd, rc_len = ?n\<rparr>], errno := e2\<rparr>"
      by simp
    then show ?thesis by blast
  qed
qed

text \<open>The switch, one request kind at a time.\<close>

lemma switch_req_no_payload:
  "switch_req w VHOST_USER_GET_FEATURES a msg = Inr (Some (msg, [], 0, True, w))"
  "switch_req w VHOST_USER_SET_OWNER a msg = Inr (Some (msg, [], 0, False, w))"
  "switch_req w VHOST_USER_RESET_OWNER a msg = Inr (Some (msg, [], 0, False, w))"
  "switch_req w (VHOST_USER_OTHER c) a msg = Inr None"
  by (simp_all add: switch_req_def)

lemma switch_req_log_fd:
  "switch_req w VHOST_USER_SET_LOG_FD a msg =
     (case a of ArgInt fd \<Rightarrow> Inr (Some (msg, [fd], 1, False, w)) | _ \<Rightarrow> Inl BadArgument)"
  by (simp add: switch_req_def)

lemma switch_req_u64:
  assumes "req = VHOST_USER_SET_FEATURES \<or> req = VHOST_USER_SET_LOG_BASE"
  shows "switch_req w req a msg =
     (case a of
        ArgU64 v \<Rightarrow>
          Inr (Some (msg\<lparr>payload := u64_bytes v, msg_size := word_of_nat sizeof_u64\<rparr>,
                     [], 0, False, w))
      | _ \<Rightarrow> Inl BadArgument)"
  using assms by (auto simp add: switch_req_def)

lemma switch_req_state:
  assumes "req = VHOST_USER_SET_VRING_NUM \<or> req = VHOST_USER_SET_VRING_BASE \<or>
    req = VHOST_USER_SET_VRING_ENABLE \<or> req = VHOST_USER_GET_VRING_BASE"
  shows "switch_req w req a msg =
     (case a of
        ArgState st \<Rightarrow>
          Inr (Some (msg\<lparr>payload := state_bytes st, msg_size := word_of_nat sizeof_vring_state\<rparr>,
                     [], 0, req = VHOST_USER_GET_VRING_BASE, w))
      | _ \<Rightarrow> Inl BadArgument)"
  using assms by (auto simp add: switch_req_def split: arg.splits)

lemma switch_req_addr:
  "switch_req w VHOST_USER_SET_VRING_ADDR a msg =
     (case a of
        ArgAddr ad \<Rightarrow>
          Inr (Some (msg\<lparr>payload := addr_bytes ad, msg_size := word_of_nat sizeof_vring_addr\<rparr>,
                     [], 0, False, w))
      | _ \<Rightarrow> Inl BadArgument)"
  by (simp add: switch_req_def)

lemma switch_req_file:
  assumes "req = VHOST_USER_SET_VRING_KICK \<or> req = VHOST_USER_SET_VRING_CALL \<or>
    req = VHOST_USER_SET_VRING_ERR"
  shows "switch_req w req a msg =
     (case a of
        ArgFile file \<Rightarrow>
          if 0 < file_fd file
          then Inr (Some (msg\<lparr>payload := u64_bytes (ucast (file_index file AND VHOST_USER_VRING_IDX_MASK)),
                               msg_size := word_of_nat sizeof_u64\<rparr>, [file_fd file], 1, False, w))
          else Inr (Some (msg\<lparr>payload := u64_bytes (ucast (file_index file AND VHOST_USER_VRING_IDX_MASK)
                                                       OR VHOST_USER_VRING_NOFD_MASK),
                               msg_size := word_of_nat sizeof_u64\<rparr>, [], 0, False, w))
      | _ \<Rightarrow> Inl BadArgument)"
  using assms by (auto simp add: switch_req_def Let_def split: arg.splits)

lemma switch_req_mem_table:
  "switch_req w VHOST_USER_SET_MEM_TABLE a msg =
     (case prepare_vhost_memory_user w msg of
        Inl f \<Rightarrow> Inl f
      | Inr (r, msg1, fds, w1) \<Rightarrow>
          if r < 0 then Inr None
          else Inr (Some (msg1\<lparr>msg_size := 4 + 4 +
                       ucast (word_of_int (sint (bytes_u32 (payload msg1))) *
                              word_of_nat sizeof_memory_region :: u64)\<rparr>,
                     fds, sint (bytes_u32 (payload msg1)), False, w1)))"
  by (auto simp add: switch_req_def Let_def split: sum.splits)

text \<open>What the switch builds: the size is the length of the payload written.\<close>

lemma switch_req_built:
  assumes sw: "switch_req w req a msg0 = Inr (Some (msg, fds, fd_num, need_reply, w1))"
    and msg0: "payload msg0 = []" "msg_size msg0 = 0"
  shows "request msg = request msg0 \<and> flags msg = flags msg0 \<and>
         unat (msg_size msg) = length (payload msg) \<and>
         length (payload msg) = documented_size req (unat (bytes_u32 (payload msg))) \<and>
         (\<exists>X. w1 = w\<lparr>open_fds := X\<rparr>)"
proof -
  note same = world_open_fds_same [of w]
  consider (none) "req = VHOST_USER_GET_FEATURES \<or> req = VHOST_USER_SET_OWNER \<or>
        req = VHOST_USER_RESET_OWNER"
    | (other) c where "req = VHOST_USER_OTHER c"
    | (logfd) "req = VHOST_USER_SET_LOG_FD"
    | (u64) "req = VHOST_USER_SET_FEATURES \<or> req = VHOST_USER_SET_LOG_BASE"
    | (state) "req = VHOST_USER_SET_VRING_NUM \<or> req = VHOST_USER_SET_VRING_BASE \<or>
        req = VHOST_USER_SET_VRING_ENABLE \<or> req = VHOST_USER_GET_VRING_BASE"
    | (addr) "req = VHOST_USER_SET_VRING_ADDR"
    | (kick) "req = VHOST_USER_SET_VRING_KICK \<or> req = VHOST_USER_SET_VRING_CALL \<or>
        req = VHOST_USER_SET_VRING_ERR"
    | (mem) "req = VHOST_USER_SET_MEM_TABLE"
    by (cases req) auto
  then show ?thesis
  proof cases
    case none
    with sw have "msg = msg0" "w1 = w" by (auto simp: switch_req_no_payload)
    with none msg0 same show ?thesis by auto
  next
    case other
    with sw show ?thesis by (simp add: switch_req_no_payload)
  next
    case logfd
    with sw have "msg = msg0" "w1 = w" by (auto simp: switch_req_log_fd split: arg.splits)
    with logfd msg0 same show ?thesis by auto
  next
    case u64
    from sw obtain v where "msg = msg0\<lparr>payload := u64_bytes v, msg_size := word_of_nat sizeof_u64\<rparr>"
      "w1 = w" by (auto simp: switch_req_u64 [OF u64] split: arg.splits)
    with u64 same show ?thesis by (auto simp: sizeof_u64_def)
  next
    case state
    from sw obtain st where
      "msg = msg0\<lparr>payload := state_bytes st, msg_size := word_of_nat sizeof_vring_state\<rparr>"
      "w1 = w" by (auto simp: switch_req_state [OF state] split: arg.splits)
    with state same show ?thesis by (auto simp: sizeof_vring_state_def)
  next
    case addr
    with sw obtain ad where
      "msg = msg0\<lparr>payload := addr_bytes ad, msg_size := word_of_nat sizeof_vring_addr\<rparr>"
      "w1 = w" by (auto simp: switch_req_addr split: arg.splits)
    with addr same show ?thesis by (auto simp: sizeof_vring_addr_def)
  next
    case kick
    from sw obtain v where "msg = msg0\<lparr>payload := u64_bytes v, msg_size := word_of_nat sizeof_u64\<rparr>"
      "w1 = w" by (auto simp: switch_req_file [OF kick] split: arg.splits if_splits)
    with kick same show ?thesis by (auto simp: sizeof_u64_def)
  next
    case mem
    with sw obtain r msg1 where
      p: "prepare_vhost_memory_user w msg0 = Inr (r, msg1, fds, w1)" and r: "0 \<le> r"
      and m: "msg = msg1\<lparr>msg_size := 4 + 4 + ucast (word_of_int (sint (bytes_u32 (payload msg1))) *
                  word_of_nat sizeof_memory_region :: u64)\<rparr>"
      by (auto simp: switch_req_mem_table split: sum.splits if_splits)
    from prepare_vhost_memory_user_result [OF p r] obtain n mrs X where
      n: "n \<le> VHOST_MEMORY_MAX_NREGIONS" "length mrs = n"
      and m1: "msg1 = msg0\<lparr>payload := memory_bytes (word_of_nat n) 0 mrs\<rparr>"
      and w1: "w1 = w\<lparr>open_fds := X\<rparr>" by blast
    from n have n8: "n \<le> 8" by (simp add: VHOST_MEMORY_MAX_NREGIONS_def)
    have cnt: "bytes_u32 (payload msg1) = word_of_nat n"
      by (simp add: m1 memory_bytes_def)
    from n8 have "n \<in> {0, 1, 2, 3, 4, 5, 6, 7, 8}" by auto
    then have un: "unat (word_of_nat n :: u32) = n" by auto
    have sz: "unat (msg_size msg) = 8 + 32 * n"
      using nregions_size [OF n8] by (simp add: m cnt sizeof_memory_region_def)
    have pl: "payload msg = memory_bytes (word_of_nat n) 0 mrs" by (simp add: m m1)
    have hd: "request msg = request msg0" "flags msg = flags msg0" by (simp_all add: m m1)
    from pl have cnt2: "bytes_u32 (payload msg) = word_of_nat n" by (simp add: memory_bytes_def)
    from pl n have len: "length (payload msg) = 8 + 32 * n" by simp
    from cnt2 un have "unat (bytes_u32 (payload msg)) = n" by simp
    with mem have "documented_size req (unat (bytes_u32 (payload msg))) = 8 + 32 * n"
      by (simp add: sizeof_memory_region_def)
    with len sz hd w1 show ?thesis by auto
  qed
qed

text \<open>
  Whenever the dispatcher returns, the \<^verbatim>\<open>sendmsg\<close> calls it has made are none, or one
  or more of the one message its switch built, with the header and the size as length.
\<close>

lemma vhost_user_sock_calls:
  assumes ret: "vhost_user_sock dev w req a = Inr (r, a', w')"
  shows "sendmsg_calls w w' = [] \<and> r = - 1 \<and>
         (is_server dev \<and> vhostfd dev < 0 \<or>
          switch_req (w\<lparr>dispatch_log := dispatch_log w @ [(req, a)]\<rparr>) req a
            \<lparr>request = request_code req, flags = VHOST_USER_VERSION, msg_size = 0, payload = []\<rparr> =
            Inr None) \<or>
         (\<exists>msg fds fd_num need_reply w1 k.
            switch_req (w\<lparr>dispatch_log := dispatch_log w @ [(req, a)]\<rparr>) req a
              \<lparr>request = request_code req, flags = VHOST_USER_VERSION, msg_size = 0, payload = []\<rparr> =
              Inr (Some (msg, fds, fd_num, need_reply, w1)) \<and>
            sendmsg_calls w w' = replicate (Suc k)
              \<lparr>sm_sockfd = vhostfd dev, sm_buf = msg,
               sm_len = int (VHOST_USER_HDR_SIZE + unat (msg_size msg)),
               sm_fds = take (nat fd_num) fds\<rparr>)"
proof -
  let ?w = "w\<lparr>dispatch_log := dispatch_log w @ [(req, a)]\<rparr>"
  let ?m0 = "\<lparr>request = request_code req, flags = VHOST_USER_VERSION, msg_size = 0, payload = []\<rparr>"
  have log0: "sendmsg_log ?w = sendmsg_log w" by simp
  show ?thesis
  proof (cases "is_server dev \<and> vhostfd dev < 0")
    case True
    with ret have "w' = ?w" "r = - 1" by (auto simp add: vhost_user_sock_def Let_def)
    with True show ?thesis by (simp add: sendmsg_calls_def)
  next
    case conn: False
    show ?thesis
    proof (cases "switch_req ?w req a ?m0")
      case (Inl f)
      with ret conn show ?thesis by (simp add: vhost_user_sock_def Let_def)
    next
      case (Inr built)
      show ?thesis
      proof (cases built)
        case None
        with ret conn Inr have "w' = ?w" "r = - 1" by (auto simp add: vhost_user_sock_def Let_def)
        with Inr None show ?thesis by (simp add: sendmsg_calls_def)
      next
        case (Some tuple)
        obtain msg fds fd_num need_reply w1 where
          tuple: "tuple = (msg, fds, fd_num, need_reply, w1)" by (cases tuple)
        let ?c = "\<lparr>sm_sockfd = vhostfd dev, sm_buf = msg,
                   sm_len = int (VHOST_USER_HDR_SIZE + unat (msg_size msg)),
                   sm_fds = take (nat fd_num) fds\<rparr>"
        from Inr Some tuple have sw: "switch_req ?w req a ?m0 =
          Inr (Some (msg, fds, fd_num, need_reply, w1))" by simp
        from switch_req_built [OF sw] obtain X where w1: "w1 = ?w\<lparr>open_fds := X\<rparr>" by auto
        show ?thesis
        proof (cases "sendmsg_retry w1 ?c")
          case None
          with ret conn sw show ?thesis
            by (simp add: vhost_user_sock_def Let_def vhost_user_write_def)
        next
          case (Some sent)
          obtain r1 w2 where sent: "sent = (r1, w2)" by (cases sent)
          from sendmsg_retry_world [of w1 ?c r1 w2] Some sent obtain k e where
            w2: "w2 = w1\<lparr>sendmsg_script := sdrop (Suc k) (sendmsg_script w1),
                          sendmsg_log := sendmsg_log w1 @ replicate (Suc k) ?c, errno := e\<rparr>"
            by auto
          have log2: "sendmsg_log w2 = sendmsg_log w @ replicate (Suc k) ?c"
            by (simp add: w2 w1)
          obtain r2 reply w4 where rd:
            "vhost_user_read (if req = VHOST_USER_SET_MEM_TABLE
                              then close_fds w2 (take (nat fd_num) fds) else w2)
               (vhostfd dev) msg = (r2, reply, w4)"
            by (metis prod_cases3)
          obtain Y where cl: "close_fds w2 (take (nat fd_num) fds) = w2\<lparr>open_fds := Y\<rparr>"
            using close_fds_world by blast
          from vhost_user_read_world [OF rd] obtain s l e4 where
            w4: "w4 = (if req = VHOST_USER_SET_MEM_TABLE
                       then close_fds w2 (take (nat fd_num) fds) else w2)
                      \<lparr>recv_script := s, recv_log := l, errno := e4\<rparr>" by blast
          from ret conn sw Some sent rd
          have "w' = w2 \<or> w' = close_fds w2 (take (nat fd_num) fds) \<or> w' = w4"
            by (auto simp: vhost_user_sock_def Let_def vhost_user_write_def
                split: if_splits sum.splits)
          then have "sendmsg_log w' = sendmsg_log w2"
            using cl w4 by (auto split: if_splits)
          with log2 have "sendmsg_calls w w' = replicate (Suc k) ?c"
            by (simp add: sendmsg_calls_def)
          with sw show ?thesis by blast
        qed
      qed
    qed
  qed
qed

subsection \<open>Running the code on the worlds above\<close>

lemmas scan_defs = sscanf_range_def scan_hex_def isspace_def starts_with_def xdigit_val_def
  path_field_def skip_field_def cut_newline_def hugefile_match_def str_underline_def
  scan_map_index_def isdigit_def PATH_MAX_def

lemma huge_scan:
  "scan_maps 8 huge_lines [] =
     Inr (2, [\<lparr>hp_addr = 0x7f0000000000, hp_size = 0x40000000, hp_path = ''/dev/hugepages/rtemap_0''\<rparr>,
              \<lparr>hp_addr = 0x7f0040000000, hp_size = 0x40000000, hp_path = ''/dev/hugepages/rtemap_1''\<rparr>])"
  by (simp add: huge_lines_def scan_defs)

lemma huge_info:
  "get_hugepage_file_info (huge_world\<lparr>dispatch_log := l\<rparr>) 8 =
     Inr (2, [\<lparr>hp_addr = 0x7f0000000000, hp_size = 0x80000000, hp_path = ''/dev/hugepages/rtemap_0''\<rparr>,
              \<lparr>hp_addr = 0x7f0040000000, hp_size = 0x40000000, hp_path = ''/dev/hugepages/rtemap_1''\<rparr>])"
  by (simp add: get_hugepage_file_info_def huge_scan correct_size_def huge_world_def)

lemma lowest_free_4 [simp]: "lowest_free [0, 1, 2, 3] = 4"
  by (simp add: lowest_free_def upt_rec)

lemma lowest_free_5 [simp]: "lowest_free [4, 0, 1, 2, 3] = 5"
  by (simp add: lowest_free_def upt_rec)

lemma huge_prepare:
  "prepare_vhost_memory_user (huge_world\<lparr>dispatch_log := l\<rparr>) msg =
     Inr (0, msg\<lparr>payload := memory_bytes 2 0 huge_regions\<rparr>, [4, 5],
          huge_world\<lparr>dispatch_log := l, open_fds := [5, 4, 0, 1, 2, 3]\<rparr>)"
  using huge_info [of l]
  by (simp add: prepare_vhost_memory_user_def VHOST_MEMORY_MAX_NREGIONS_def open_rdwr_def
      huge_regions_def Let_def)
     (simp add: huge_world_def)

lemma huge_dispatch:
  "vhost_user_sock client_dev huge_world VHOST_USER_SET_MEM_TABLE ArgNull =
     Inr (0, ArgNull,
          huge_world\<lparr>sendmsg_script := sconst (Sent 4096), sendmsg_log := [huge_call],
            open_fds := [0, 1, 2, 3],
            dispatch_log := [(VHOST_USER_SET_MEM_TABLE, ArgNull)]\<rparr>)"
proof -
  have d: "dispatch_log huge_world = []" by (simp add: huge_world_def)
  show ?thesis
    unfolding vhost_user_sock_def d
    apply (simp add: client_dev_def switch_req_mem_table huge_prepare Let_def
        vhost_user_write_def VHOST_USER_HDR_SIZE_def sizeof_memory_region_def
        memory_bytes_def [of 2] VHOST_USER_VERSION_def)
    apply (subst sendmsg_retry.simps)
    apply (simp add: sendmsg_def huge_world_def close_fds_def close_fd_def huge_call_def
        memory_bytes_def)
    done
qed


subsection \<open>The dispatcher: the world it leaves\<close>

text \<open>
  Whenever the dispatcher returns, it has logged its request, and the mapping table, the
  file sizes and what can be opened are as before.
\<close>

lemma vhost_user_sock_world:
  assumes ret: "vhost_user_sock dev w req a = Inr (r, a', w')"
  shows "\<exists>j sl rs rl e X.
           w' = w\<lparr>dispatch_log := dispatch_log w @ [(req, a)],
                   sendmsg_script := sdrop j (sendmsg_script w),
                   sendmsg_log := sl, recv_script := rs, recv_log := rl, errno := e,
                   open_fds := X\<rparr>"
proof -
  let ?w = "w\<lparr>dispatch_log := dispatch_log w @ [(req, a)]\<rparr>"
  let ?m0 = "\<lparr>request = request_code req, flags = VHOST_USER_VERSION, msg_size = 0, payload = []\<rparr>"
  have same: "?w = w\<lparr>dispatch_log := dispatch_log w @ [(req, a)],
       sendmsg_script := sdrop 0 (sendmsg_script w), sendmsg_log := sendmsg_log w,
       recv_script := recv_script w, recv_log := recv_log w, errno := errno w,
       open_fds := open_fds w\<rparr>" by simp
  show ?thesis
  proof (cases "is_server dev \<and> vhostfd dev < 0")
    case True
    with ret have "w' = ?w" by (auto simp add: vhost_user_sock_def Let_def)
    with same show ?thesis by blast
  next
    case conn: False
    show ?thesis
    proof (cases "switch_req ?w req a ?m0")
      case (Inl f)
      with ret conn show ?thesis by (simp add: vhost_user_sock_def Let_def)
    next
      case (Inr built)
      show ?thesis
      proof (cases built)
        case None
        with ret conn Inr have "w' = ?w" by (auto simp add: vhost_user_sock_def Let_def)
        with same show ?thesis by blast
      next
        case (Some tuple)
        obtain msg fds fd_num need_reply w1 where
          tuple: "tuple = (msg, fds, fd_num, need_reply, w1)" by (cases tuple)
        let ?c = "\<lparr>sm_sockfd = vhostfd dev, sm_buf = msg,
                   sm_len = int (VHOST_USER_HDR_SIZE + unat (msg_size msg)),
                   sm_fds = take (nat fd_num) fds\<rparr>"
        from Inr Some tuple have sw: "switch_req ?w req a ?m0 =
          Inr (Some (msg, fds, fd_num, need_reply, w1))" by simp
        from switch_req_built [OF sw] obtain X where w1: "w1 = ?w\<lparr>open_fds := X\<rparr>" by auto
        show ?thesis
        proof (cases "sendmsg_retry w1 ?c")
          case None
          with ret conn sw show ?thesis
            by (simp add: vhost_user_sock_def Let_def vhost_user_write_def)
        next
          case (Some sent)
          obtain r1 w2 where sent: "sent = (r1, w2)" by (cases sent)
          from sendmsg_retry_world [of w1 ?c r1 w2] Some sent obtain k e where
            w2: "w2 = w1\<lparr>sendmsg_script := sdrop (Suc k) (sendmsg_script w1),
                          sendmsg_log := sendmsg_log w1 @ replicate (Suc k) ?c, errno := e\<rparr>"
            by auto
          let ?w3 = "if req = VHOST_USER_SET_MEM_TABLE
                     then close_fds w2 (take (nat fd_num) fds) else w2"
          obtain r2 reply w4 where rd: "vhost_user_read ?w3 (vhostfd dev) msg = (r2, reply, w4)"
            by (metis prod_cases3)
          obtain Y where cl: "close_fds w2 (take (nat fd_num) fds) = w2\<lparr>open_fds := Y\<rparr>"
            using close_fds_world by blast
          from vhost_user_read_world [OF rd] obtain s l e4 where
            w4: "w4 = ?w3\<lparr>recv_script := s, recv_log := l, errno := e4\<rparr>" by blast
          from ret conn sw Some sent rd
          have "w' = w2 \<or> w' = close_fds w2 (take (nat fd_num) fds) \<or> w' = w4"
            by (auto simp: vhost_user_sock_def Let_def vhost_user_write_def
                split: if_splits sum.splits)
          then consider (a) "w' = w2" | (b) "w' = w2\<lparr>open_fds := Y\<rparr>"
            | (c) "w' = w2\<lparr>recv_script := s, recv_log := l, errno := e4\<rparr>"
            | (d) "w' = w2\<lparr>open_fds := Y, recv_script := s, recv_log := l, errno := e4\<rparr>"
            using cl w4 by (auto split: if_splits)
          then show ?thesis
          proof cases
            case a
            then have "w' = w\<lparr>dispatch_log := dispatch_log w @ [(req, a)],
                sendmsg_script := sdrop (Suc k) (sendmsg_script w), sendmsg_log := sendmsg_log w2,
                recv_script := recv_script w, recv_log := recv_log w, errno := e,
                open_fds := X\<rparr>" by (simp add: w2 w1)
            then show ?thesis by blast
          next
            case b
            then have "w' = w\<lparr>dispatch_log := dispatch_log w @ [(req, a)],
                sendmsg_script := sdrop (Suc k) (sendmsg_script w), sendmsg_log := sendmsg_log w2,
                recv_script := recv_script w, recv_log := recv_log w, errno := e,
                open_fds := Y\<rparr>" by (simp add: w2 w1)
            then show ?thesis by blast
          next
            case c
            then have "w' = w\<lparr>dispatch_log := dispatch_log w @ [(req, a)],
                sendmsg_script := sdrop (Suc k) (sendmsg_script w), sendmsg_log := sendmsg_log w2,
                recv_script := s, recv_log := l, errno := e4,
                open_fds := X\<rparr>" by (simp add: w2 w1)
            then show ?thesis by blast
          next
            case d
            then have "w' = w\<lparr>dispatch_log := dispatch_log w @ [(req, a)],
                sendmsg_script := sdrop (Suc k) (sendmsg_script w), sendmsg_log := sendmsg_log w2,
                recv_script := s, recv_log := l, errno := e4,
                open_fds := Y\<rparr>" by (simp add: w2 w1)
            then show ?thesis by blast
          qed
        qed
      qed
    qed
  qed
qed

lemma vhost_user_sock_dispatch_log:
  assumes "vhost_user_sock dev w req a = Inr (r, a', w')"
  shows "dispatch_log w' = dispatch_log w @ [(req, a)]"
proof -
  from vhost_user_sock_world [OF assms] obtain j sl rs rl e X where
    "w' = w\<lparr>dispatch_log := dispatch_log w @ [(req, a)],
                   sendmsg_script := sdrop j (sendmsg_script w),
                   sendmsg_log := sl, recv_script := rs, recv_log := rl, errno := e,
                   open_fds := X\<rparr>" by blast
  then show ?thesis by simp
qed

lemma vhost_user_sock_script:
  assumes "vhost_user_sock dev w req a = Inr (r, a', w')"
  shows "\<exists>j. sendmsg_script w' = sdrop j (sendmsg_script w)"
proof -
  from vhost_user_sock_world [OF assms] obtain j sl rs rl e X where
    "w' = w\<lparr>dispatch_log := dispatch_log w @ [(req, a)],
                   sendmsg_script := sdrop j (sendmsg_script w),
                   sendmsg_log := sl, recv_script := rs, recv_log := rl, errno := e,
                   open_fds := X\<rparr>" by blast
  then have "sendmsg_script w' = sdrop j (sendmsg_script w)" by simp
  then show ?thesis ..
qed

subsection \<open>Running the queue-pair helper\<close>

lemma enable_idle:
  "vhost_user_enable_queue_pair client_dev idle_world 2 1 =
     Inr (0, idle_world\<lparr>sendmsg_script := sconst (Sent 4096),
               sendmsg_log := [enable_call 4, enable_call 5],
               dispatch_log :=
                 [(VHOST_USER_SET_VRING_ENABLE, ArgState \<lparr>vring_index = 4, vring_num = 1\<rparr>),
                  (VHOST_USER_SET_VRING_ENABLE, ArgState \<lparr>vring_index = 5, vring_num = 1\<rparr>)]\<rparr>)"
  by (simp add: vhost_user_enable_queue_pair_def vhost_user_sock_def switch_req_state
      vhost_user_write_def sendmsg_retry.simps sendmsg_def client_dev_def idle_world_def
      enable_call_def Let_def VHOST_USER_HDR_SIZE_def sizeof_vring_state_def VHOST_USER_VERSION_def)

lemma enable_unconnected:
  "vhost_user_enable_queue_pair server_dev idle_world 2 1 =
     Inr (- 1, idle_world\<lparr>dispatch_log :=
                 [(VHOST_USER_SET_VRING_ENABLE, ArgState \<lparr>vring_index = 4, vring_num = 1\<rparr>)]\<rparr>)"
  by (simp add: vhost_user_enable_queue_pair_def vhost_user_sock_def server_dev_def idle_world_def)

subsection \<open>Receiving\<close>

lemma sint_u32:
  fixes sz :: u32
  shows "sint sz = uint sz - (if bit sz 31 then 2 ^ 32 else 0)"
  by (simp add: sint_uint signed_take_bit_eq_take_bit_minus take_bit_int_eq_self
      uint_bounded [of sz, simplified] bit_uint_iff)

lemma take_bit_64_negative:
  fixes k :: int
  assumes "- (2 ^ 64) \<le> k" and "k < 0"
  shows "take_bit 64 k = k + 2 ^ 64"
proof -
  have "take_bit 64 k = k mod 2 ^ 64" by (simp add: take_bit_eq_mod)
  also have "\<dots> = (k + 2 ^ 64) mod 2 ^ 64" by simp
  also have "\<dots> = k + 2 ^ 64" using assms by (intro mod_pos_pos_trivial) auto
  finally show ?thesis .
qed

text \<open>
  The C comparison \<^verbatim>\<open>(size_t)sz_payload > sizeof(msg->payload)\<close> on the signed copy of
  the size field is the unsigned comparison of the field itself.
\<close>

lemma size_t_of_int:
  fixes sz :: u32
  shows "unat (word_of_int (sint sz) :: u64) =
           (if bit sz 31 then 2 ^ 64 - 2 ^ 32 + unat sz else unat sz)"
proof (cases "bit sz 31")
  case True
  have b: "0 \<le> uint sz" "uint sz < 2 ^ 32" using uint_bounded [of sz] by simp_all
  from True have s: "sint sz = uint sz - 2 ^ 32" by (simp add: sint_u32)
  from b have "take_bit 64 (uint sz - 2 ^ 32) = uint sz - 2 ^ 32 + 2 ^ 64"
    by (intro take_bit_64_negative) auto
  then have "uint (word_of_int (sint sz) :: u64) = uint sz - 2 ^ 32 + 2 ^ 64"
    unfolding uint_word_of_int_eq s by simp
  with True b show ?thesis
    unfolding unat_eq_nat_uint by (simp add: nat_add_distrib nat_diff_distrib)
next
  case False
  have b: "0 \<le> uint sz" "uint sz < 2 ^ 32" using uint_bounded [of sz] by simp_all
  from False have s: "sint sz = uint sz" by (simp add: sint_u32)
  from b have "take_bit 64 (uint sz) = uint sz" by (intro take_bit_int_eq_self) auto
  then have "uint (word_of_int (sint sz) :: u64) = uint sz"
    unfolding uint_word_of_int_eq s by simp
  with False show ?thesis unfolding unat_eq_nat_uint by simp
qed

lemma payload_bound_check:
  fixes sz :: u32
  shows "(word_of_nat sizeof_payload < (word_of_int (sint sz) :: u64)) = (sizeof_payload < unat sz)"
proof -
  have sp: "sizeof_payload = 264"
    by (simp add: sizeof_payload_def sizeof_u64_def sizeof_vring_state_def sizeof_vring_addr_def
        sizeof_vhost_memory_def VHOST_MEMORY_MAX_NREGIONS_def sizeof_memory_region_def)
  have "2 ^ 31 \<le> unat sz" if "bit sz 31"
  proof -
    from that sint_ge [of sz] have "2 ^ 31 \<le> uint sz" by (simp add: sint_u32)
    then have "nat (2 ^ 31) \<le> nat (uint sz)" by (rule nat_mono)
    then show ?thesis unfolding unat_eq_nat_uint by simp
  qed
  then show ?thesis
    unfolding word_less_nat_alt size_t_of_int sp by (auto simp: unat_of_nat)
qed

lemma bytes_u32_u32_bytes_only [simp]: "bytes_u32 (u32_bytes x) = x"
  using bytes_u32_u32_bytes [of x "[]"] by simp

lemma bytes_u64_u64_bytes_only [simp]: "bytes_u64 (u64_bytes x) = x"
  using bytes_u64_u64_bytes [of x "[]"] by simp

lemma payload_recv_len:
  fixes sz :: u32
  assumes "\<not> sizeof_payload < unat sz"
  shows "unat (word_of_int (sint sz) :: u64) = unat sz"
proof -
  have sp: "sizeof_payload = 264"
    by (simp add: sizeof_payload_def sizeof_u64_def sizeof_vring_state_def sizeof_vring_addr_def
        sizeof_vhost_memory_def VHOST_MEMORY_MAX_NREGIONS_def sizeof_memory_region_def)
  have "\<not> bit sz 31"
  proof
    assume b: "bit sz 31"
    with sint_ge [of sz] have "2 ^ 31 \<le> uint sz" by (simp add: sint_u32)
    then have "nat (2 ^ 31) \<le> nat (uint sz)" by (rule nat_mono)
    with assms sp show False unfolding unat_eq_nat_uint by simp
  qed
  then show ?thesis by (simp only: size_t_of_int if_False)
qed

lemma scast_size_t: "(scast (sz :: u32) :: u64) = word_of_int (sint sz)"
  by simp

lemmas payload_bound_check_scast = payload_bound_check [folded scast_size_t]
lemmas payload_recv_len_scast = payload_recv_len [folded scast_size_t]

lemma recv_calls_one:
  assumes "recv w fd n = (ret, bs, w1)"
  shows "recv_log w1 = recv_log w @ [\<lparr>rc_sockfd = fd, rc_len = n\<rparr>]"
  using recv_world [OF assms] by auto

text \<open>
  C4. Whatever header \<^verbatim>\<open>recv\<close> hands over: if its flags are not exactly the reply
  bit together with the version, or if its size is larger than the payload union,
  \<open>vhost_user_read\<close> returns -1 in the world the header \<^verbatim>\<open>recv\<close> left, having made
  that one \<^verbatim>\<open>recv\<close> and no other, so no payload byte is read. In every case it makes
  the header \<^verbatim>\<open>recv\<close> and at most one more, which asks for no more bytes than the
  payload union holds.
\<close>

theorem read_checks_header:
  assumes rd: "vhost_user_read w fd msg = (r, m, w')"
    and hd: "recv w fd VHOST_USER_HDR_SIZE = (ret, hdr, w1)"
  shows "(bytes_u32 (drop 4 hdr) \<noteq> (VHOST_USER_REPLY_MASK OR VHOST_USER_VERSION) \<or>
          sizeof_payload < unat (bytes_u32 (drop 8 hdr)) \<longrightarrow>
            r = - 1 \<and> w' = w1 \<and>
            recv_calls w w' = [\<lparr>rc_sockfd = fd, rc_len = VHOST_USER_HDR_SIZE\<rparr>]) \<and>
         (recv_calls w w' = [\<lparr>rc_sockfd = fd, rc_len = VHOST_USER_HDR_SIZE\<rparr>] \<or>
          (\<exists>n. n \<le> sizeof_payload \<and>
             recv_calls w w' = [\<lparr>rc_sockfd = fd, rc_len = VHOST_USER_HDR_SIZE\<rparr>,
                                \<lparr>rc_sockfd = fd, rc_len = n\<rparr>]))"
proof -
  let ?sz = "msg_size (read_header msg hdr)"
  let ?n = "unat (word_of_int (sint ?sz) :: u64)"
  have fl: "flags (read_header msg hdr) = bytes_u32 (drop 4 hdr)"
    and sz: "?sz = bytes_u32 (drop 8 hdr)" by (simp_all add: read_header_def)
  note log1 = recv_calls_one [OF hd]
  then have one: "recv_calls w w1 = [\<lparr>rc_sockfd = fd, rc_len = VHOST_USER_HDR_SIZE\<rparr>]"
    by (simp add: recv_calls_def)
  obtain ret2 body w2 where bd: "recv w1 fd ?n = (ret2, body, w2)" by (metis prod_cases3)
  from recv_calls_one [OF bd] log1
  have two: "recv_calls w w2 = [\<lparr>rc_sockfd = fd, rc_len = VHOST_USER_HDR_SIZE\<rparr>,
                                \<lparr>rc_sockfd = fd, rc_len = ?n\<rparr>]"
    by (simp add: recv_calls_def)
  have bad: "r = - 1 \<and> w' = w1"
    if "bytes_u32 (drop 4 hdr) \<noteq> (VHOST_USER_REPLY_MASK OR VHOST_USER_VERSION) \<or>
        sizeof_payload < unat (bytes_u32 (drop 8 hdr))"
    using that rd hd fl sz
    by (auto simp: vhost_user_read_def Let_def payload_bound_check_scast split: if_splits)
  have "w' = w1 \<or> (w' = w2 \<and> \<not> sizeof_payload < unat ?sz)"
    using rd hd bd
    by (auto simp: vhost_user_read_def Let_def payload_bound_check_scast split: if_splits)
  then have shape: "recv_calls w w' = [\<lparr>rc_sockfd = fd, rc_len = VHOST_USER_HDR_SIZE\<rparr>] \<or>
          (\<exists>n. n \<le> sizeof_payload \<and>
             recv_calls w w' = [\<lparr>rc_sockfd = fd, rc_len = VHOST_USER_HDR_SIZE\<rparr>,
                                \<lparr>rc_sockfd = fd, rc_len = n\<rparr>])"
  proof
    assume "w' = w1"
    with one show ?thesis by simp
  next
    assume a: "w' = w2 \<and> \<not> sizeof_payload < unat ?sz"
    then have "?n \<le> sizeof_payload" by (simp add: payload_recv_len_scast)
    with a two show ?thesis by blast
  qed
  from bad one shape show ?thesis by auto
qed


theorem read_checks_header_witness:
  "fst (vhost_user_read no_reply_bit 3 empty_msg) = - 1 \<and>
   recv_calls no_reply_bit (snd (snd (vhost_user_read no_reply_bit 3 empty_msg))) =
     [\<lparr>rc_sockfd = 3, rc_len = 12\<rparr>] \<and>
   recv_script (snd (snd (vhost_user_read no_reply_bit 3 empty_msg))) =
     Received (u64_bytes 7) ## sconst (Received []) \<and>
   fst (vhost_user_read oversized 3 empty_msg) = - 1 \<and>
   recv_calls oversized (snd (snd (vhost_user_read oversized 3 empty_msg))) =
     [\<lparr>rc_sockfd = 3, rc_len = 12\<rparr>] \<and>
   recv_script (snd (snd (vhost_user_read oversized 3 empty_msg))) =
     Received (u64_bytes 7) ## sconst (Received [])"
proof -
  have sp: "sizeof_payload = 264"
    by (simp add: sizeof_payload_def sizeof_u64_def sizeof_vring_state_def sizeof_vring_addr_def
        sizeof_vhost_memory_def VHOST_MEMORY_MAX_NREGIONS_def sizeof_memory_region_def)
  have h1: "recv no_reply_bit 3 VHOST_USER_HDR_SIZE =
      (12, hdr_bytes \<lparr>request = 1, flags = 1, msg_size = 8, payload = []\<rparr>,
       no_reply_bit\<lparr>recv_script := Received (u64_bytes 7) ## sconst (Received []),
                     recv_log := [\<lparr>rc_sockfd = 3, rc_len = 12\<rparr>]\<rparr>)"
    by (simp add: recv_def no_reply_bit_def reply_world_def idle_world_def hdr_bytes_def
        VHOST_USER_HDR_SIZE_def)
  have h2: "recv oversized 3 VHOST_USER_HDR_SIZE =
      (12, hdr_bytes \<lparr>request = 1, flags = 5, msg_size = 265, payload = []\<rparr>,
       oversized\<lparr>recv_script := Received (u64_bytes 7) ## sconst (Received []),
                  recv_log := [\<lparr>rc_sockfd = 3, rc_len = 12\<rparr>]\<rparr>)"
    by (simp add: recv_def oversized_def reply_world_def idle_world_def hdr_bytes_def
        VHOST_USER_HDR_SIZE_def)
  have f1: "bytes_u32 (drop 4 (hdr_bytes \<lparr>request = 1, flags = 1, msg_size = 8, payload = []\<rparr>)) \<noteq>
      (VHOST_USER_REPLY_MASK OR VHOST_USER_VERSION)"
    by (simp add: hdr_bytes_def VHOST_USER_REPLY_MASK_def VHOST_USER_VERSION_def)
  have f2: "sizeof_payload <
      unat (bytes_u32 (drop 8 (hdr_bytes \<lparr>request = 1, flags = 5, msg_size = 265, payload = []\<rparr>)))"
    by (simp add: hdr_bytes_def sp)
  obtain r1 m1 w1 where rd1: "vhost_user_read no_reply_bit 3 empty_msg = (r1, m1, w1)"
    by (metis prod_cases3)
  obtain r2 m2 w2 where rd2: "vhost_user_read oversized 3 empty_msg = (r2, m2, w2)"
    by (metis prod_cases3)
  from read_checks_header [OF rd1 h1] read_checks_header [OF rd2 h2] f1 f2
  show ?thesis by (auto simp add: rd1 rd2 VHOST_USER_HDR_SIZE_def)
qed

subsection \<open>Replies\<close>

text \<open>
  C9. A get-features dispatch on a channel where \<^verbatim>\<open>sendmsg\<close> is at some point no
  longer interrupted, and where the header that arrives as the reply carries a request
  other than get-features or a size other than that of the 64-bit scalar: the dispatcher
  returns -1 and what the argument points to is as before. The payload is copied into the
  argument only behind both checks.
\<close>

theorem get_features_bad_reply:
  assumes script: "sendmsg_script w = replicate k (SendFailed EINTR) @- (res ## rest)"
    and res: "res \<noteq> SendFailed EINTR"
    and reply: "shd (recv_script w) = Received bs"
    and bad: "bytes_u32 (take VHOST_USER_HDR_SIZE bs) \<noteq> request_code VHOST_USER_GET_FEATURES \<or>
              bytes_u32 (drop 8 (take VHOST_USER_HDR_SIZE bs)) \<noteq> word_of_nat sizeof_u64"
  shows "\<exists>w'. vhost_user_sock dev w VHOST_USER_GET_FEATURES a = Inr (- 1, a, w')"
proof -
  let ?w = "w\<lparr>dispatch_log := dispatch_log w @ [(VHOST_USER_GET_FEATURES, a)]\<rparr>"
  let ?m0 = "\<lparr>request = request_code VHOST_USER_GET_FEATURES, flags = VHOST_USER_VERSION,
              msg_size = 0, payload = []\<rparr>"
  let ?c = "\<lparr>sm_sockfd = vhostfd dev, sm_buf = ?m0,
             sm_len = int (VHOST_USER_HDR_SIZE + unat (msg_size ?m0)), sm_fds = take (nat 0) []\<rparr>"
  from script have "sendmsg_script ?w = replicate k (SendFailed EINTR) @- (res ## rest)" by simp
  from sendmsg_retry_returns [OF this res, of ?c] obtain e where
    sent: "sendmsg_retry ?w ?c =
      Some (send_value res (sm_len ?c),
            ?w\<lparr>sendmsg_script := rest, sendmsg_log := sendmsg_log ?w @ replicate (Suc k) ?c,
               errno := e\<rparr>)" by blast
  let ?w2 = "?w\<lparr>sendmsg_script := rest, sendmsg_log := sendmsg_log ?w @ replicate (Suc k) ?c,
               errno := e\<rparr>"
  obtain r2 m w4 where rd: "vhost_user_read ?w2 (vhostfd dev) ?m0 = (r2, m, w4)"
    by (metis prod_cases3)
  from reply have "shd (recv_script ?w2) = Received bs" by simp
  then have hdr: "r2 < 0 \<or> (request m = bytes_u32 (take VHOST_USER_HDR_SIZE bs) \<and>
      msg_size m = bytes_u32 (drop 8 (take VHOST_USER_HDR_SIZE bs)))"
    using rd
    by (auto simp: vhost_user_read_def recv_def Let_def read_header_def
        split: if_splits prod.splits recv_result.splits)
  with bad have fail: "r2 < 0 \<or> request_code VHOST_USER_GET_FEATURES \<noteq> request m \<or>
      copy_reply VHOST_USER_GET_FEATURES m a = Inr (- 1, a)"
    by (auto simp: copy_reply_def)
  show ?thesis
  proof (cases "is_server dev \<and> vhostfd dev < 0")
    case True
    then show ?thesis by (auto simp: vhost_user_sock_def Let_def)
  next
    case False
    show ?thesis
    proof (cases "send_value res (sm_len ?c) < 0")
      case True
      with False sent show ?thesis
        by (simp add: vhost_user_sock_def Let_def switch_req_no_payload vhost_user_write_def)
    next
      case ok: False
      from fail consider "r2 < 0" | "\<not> r2 < 0" "request_code VHOST_USER_GET_FEATURES \<noteq> request m"
        | "\<not> r2 < 0" "request_code VHOST_USER_GET_FEATURES = request m"
          "copy_reply VHOST_USER_GET_FEATURES m a = Inr (- 1, a)" by blast
      then show ?thesis
        using False ok sent rd
        by cases
          (simp_all add: vhost_user_sock_def Let_def switch_req_no_payload vhost_user_write_def)
    qed
  qed
qed


theorem get_features_bad_reply_witness:
  "(\<exists>w'. vhost_user_sock client_dev short_features_reply VHOST_USER_GET_FEATURES (ArgU64 99) =
          Inr (- 1, ArgU64 99, w')) \<and>
   (\<exists>w'. vhost_user_sock client_dev wrong_request_reply VHOST_USER_GET_FEATURES (ArgU64 99) =
          Inr (- 1, ArgU64 99, w'))"
proof -
  have s1: "sendmsg_script short_features_reply =
      replicate 0 (SendFailed EINTR) @- (Sent 4096 ## sconst (Sent 4096))"
    and s2: "sendmsg_script wrong_request_reply =
      replicate 0 (SendFailed EINTR) @- (Sent 4096 ## sconst (Sent 4096))"
    by (simp_all add: short_features_reply_def wrong_request_reply_def reply_world_def idle_world_def)
  have r1: "shd (recv_script short_features_reply) =
      Received (hdr_bytes \<lparr>request = 1, flags = 5, msg_size = 4, payload = []\<rparr>)"
    and r2: "shd (recv_script wrong_request_reply) =
      Received (hdr_bytes \<lparr>request = 11, flags = 5, msg_size = 8, payload = []\<rparr>)"
    by (simp_all add: short_features_reply_def wrong_request_reply_def reply_world_def)
  have b1: "bytes_u32 (take VHOST_USER_HDR_SIZE
        (hdr_bytes \<lparr>request = 1, flags = 5, msg_size = 4, payload = []\<rparr>)) \<noteq>
        request_code VHOST_USER_GET_FEATURES \<or>
      bytes_u32 (drop 8 (take VHOST_USER_HDR_SIZE
        (hdr_bytes \<lparr>request = 1, flags = 5, msg_size = 4, payload = []\<rparr>))) \<noteq>
        word_of_nat sizeof_u64"
    by (simp add: hdr_bytes_def VHOST_USER_HDR_SIZE_def sizeof_u64_def)
  have b2: "bytes_u32 (take VHOST_USER_HDR_SIZE
        (hdr_bytes \<lparr>request = 11, flags = 5, msg_size = 8, payload = []\<rparr>)) \<noteq>
        request_code VHOST_USER_GET_FEATURES \<or>
      bytes_u32 (drop 8 (take VHOST_USER_HDR_SIZE
        (hdr_bytes \<lparr>request = 11, flags = 5, msg_size = 8, payload = []\<rparr>))) \<noteq>
        word_of_nat sizeof_u64"
    by (simp add: hdr_bytes_def VHOST_USER_HDR_SIZE_def sizeof_u64_def)
  from get_features_bad_reply [OF s1 _ r1 b1, of client_dev "ArgU64 99"]
    get_features_bad_reply [OF s2 _ r2 b2, of client_dev "ArgU64 99"]
  show ?thesis by simp
qed

text \<open>For contrast: a well-formed reply is copied into the argument.\<close>

lemma get_features_good_reply:
  "vhost_user_sock client_dev features_reply VHOST_USER_GET_FEATURES (ArgU64 99) =
     Inr (0, ArgU64 7,
          features_reply\<lparr>sendmsg_script := sconst (Sent 4096),
            sendmsg_log := [\<lparr>sm_sockfd = 3,
                             sm_buf = \<lparr>request = 1, flags = 1, msg_size = 0, payload = []\<rparr>,
                             sm_len = 12, sm_fds = []\<rparr>],
            recv_script := sconst (Received []),
            recv_log := [\<lparr>rc_sockfd = 3, rc_len = 12\<rparr>, \<lparr>rc_sockfd = 3, rc_len = 8\<rparr>],
            dispatch_log := [(VHOST_USER_GET_FEATURES, ArgU64 99)]\<rparr>)"
  by (simp add: vhost_user_sock_def switch_req_no_payload vhost_user_write_def
      sendmsg_retry.simps sendmsg_def vhost_user_read_def recv_def read_header_def copy_reply_def
      features_reply_def reply_world_def idle_world_def client_dev_def hdr_bytes_def Let_def
      VHOST_USER_HDR_SIZE_def VHOST_USER_VERSION_def VHOST_USER_REPLY_MASK_def sizeof_u64_def
      payload_bound_check_scast payload_recv_len_scast
      sizeof_payload_def sizeof_vring_state_def sizeof_vring_addr_def
      sizeof_vhost_memory_def VHOST_MEMORY_MAX_NREGIONS_def sizeof_memory_region_def)

subsection \<open>Sending\<close>

text \<open>
  C2, as the specification has it, fails: a \<^verbatim>\<open>sendmsg\<close> that takes 5 of the 20 bytes of
  a set-features message returns 5, which is not negative, and the dispatcher returns 0.
\<close>

theorem short_write_not_surfaced:
  "fst (sendmsg (send_world (Sent 5 ## sconst (Sent 4096))) features_call) = 5 \<and>
   sm_len features_call = 20 \<and>
   vhost_user_sock client_dev (send_world (Sent 5 ## sconst (Sent 4096)))
     VHOST_USER_SET_FEATURES (ArgU64 1) =
     Inr (0, ArgU64 1,
          send_world (sconst (Sent 4096))
            \<lparr>sendmsg_log := [features_call],
             dispatch_log := [(VHOST_USER_SET_FEATURES, ArgU64 1)]\<rparr>)"
  by (simp add: vhost_user_sock_def switch_req_u64 vhost_user_write_def sendmsg_retry.simps
      sendmsg_def send_world_def idle_world_def client_dev_def features_call_def Let_def
      VHOST_USER_HDR_SIZE_def VHOST_USER_VERSION_def sizeof_u64_def)

text \<open>
  C2, amended. On a connected channel, for the message the switch built: the transport
  repeats \<^verbatim>\<open>sendmsg\<close> while it is interrupted, and the first call that is not
  interrupted ends the loop with its value. If that call failed, the dispatcher returns -1.
  If it returned a byte count, also one below the length asked for, the dispatcher carries
  on as after a complete send, whatever the count: it closes the descriptors of a memory
  table, and then, for a request without reply, it returns 0, and for a request with a
  reply it reads the reply and returns what the checks of the reply give.
\<close>

theorem send_retries_and_surfaces_failure:
  assumes conn: "\<not> (is_server dev \<and> vhostfd dev < 0)"
    and sw: "switch_req (w\<lparr>dispatch_log := dispatch_log w @ [(req, a)]\<rparr>) req a
               \<lparr>request = request_code req, flags = VHOST_USER_VERSION, msg_size = 0, payload = []\<rparr> =
             Inr (Some (msg, fds, fd_num, need_reply, w1))"
    and script: "sendmsg_script w = replicate k (SendFailed EINTR) @- (res ## rest)"
    and res: "res \<noteq> SendFailed EINTR"
  defines "len \<equiv> int (VHOST_USER_HDR_SIZE + unat (msg_size msg))"
  defines "c \<equiv> \<lparr>sm_sockfd = vhostfd dev, sm_buf = msg, sm_len = len, sm_fds = take (nat fd_num) fds\<rparr>"
  shows "\<exists>e w2.
           w2 = w1\<lparr>sendmsg_script := rest, sendmsg_log := sendmsg_log w1 @ replicate (Suc k) c,
                   errno := e\<rparr> \<and>
           vhost_user_write w1 (vhostfd dev) msg len fds fd_num = Some (send_value res len, w2) \<and>
           (case res of
              SendFailed x \<Rightarrow> vhost_user_sock dev w req a = Inr (- 1, a, w2)
            | Sent n \<Rightarrow>
                vhost_user_sock dev w req a =
                  (let w3 = (if req = VHOST_USER_SET_MEM_TABLE
                             then close_fds w2 (take (nat fd_num) fds) else w2)
                   in if need_reply then
                        (case vhost_user_read w3 (vhostfd dev) msg of
                           (r2, reply, w4) \<Rightarrow>
                             if r2 < 0 then Inr (- 1, a, w4)
                             else if request_code req \<noteq> request reply then Inr (- 1, a, w4)
                             else (case copy_reply req reply a of
                                     Inl f \<Rightarrow> Inl f
                                   | Inr (r3, a') \<Rightarrow> Inr (r3, a', w4)))
                      else Inr (0, a, w3)))"
proof -
  let ?w = "w\<lparr>dispatch_log := dispatch_log w @ [(req, a)]\<rparr>"
  from conn have nc: "(is_server dev \<and> vhostfd dev < 0) = False" by simp
  from switch_req_built [OF sw] obtain X where w1: "w1 = ?w\<lparr>open_fds := X\<rparr>" by auto
  with script have "sendmsg_script w1 = replicate k (SendFailed EINTR) @- (res ## rest)" by simp
  from sendmsg_retry_returns [OF this res, of c] obtain e where
    sent: "sendmsg_retry w1 c =
      Some (send_value res len,
            w1\<lparr>sendmsg_script := rest, sendmsg_log := sendmsg_log w1 @ replicate (Suc k) c,
               errno := e\<rparr>)" by (auto simp: c_def)
  define w2 where "w2 = w1\<lparr>sendmsg_script := rest,
      sendmsg_log := sendmsg_log w1 @ replicate (Suc k) c, errno := e\<rparr>"
  from sent have wr: "vhost_user_write w1 (vhostfd dev) msg len fds fd_num =
      Some (send_value res len, w2)"
    by (simp add: vhost_user_write_def c_def w2_def)
  have "case res of
          SendFailed x \<Rightarrow> vhost_user_sock dev w req a = Inr (- 1, a, w2)
        | Sent n \<Rightarrow>
            vhost_user_sock dev w req a =
              (let w3 = (if req = VHOST_USER_SET_MEM_TABLE
                         then close_fds w2 (take (nat fd_num) fds) else w2)
               in if need_reply then
                    (case vhost_user_read w3 (vhostfd dev) msg of
                       (r2, reply, w4) \<Rightarrow>
                         if r2 < 0 then Inr (- 1, a, w4)
                         else if request_code req \<noteq> request reply then Inr (- 1, a, w4)
                         else (case copy_reply req reply a of
                                 Inl f \<Rightarrow> Inl f
                               | Inr (r3, a') \<Rightarrow> Inr (r3, a', w4)))
                  else Inr (0, a, w3))"
  proof (cases res)
    case (Sent n)
    with sw wr show ?thesis
      unfolding vhost_user_sock_def Let_def nc
      by (simp add: send_value_def len_def)
  next
    case (SendFailed x)
    with sw wr show ?thesis
      unfolding vhost_user_sock_def Let_def nc
      by (simp add: send_value_def len_def)
  qed
  with wr w2_def show ?thesis by blast
qed

theorem send_retries_and_surfaces_failure_witness:
  "(\<exists>e. vhost_user_sock client_dev
          (send_world ([SendFailed EINTR, SendFailed EINTR] @- (Sent 5 ## sconst (Sent 4096))))
          VHOST_USER_SET_FEATURES (ArgU64 1) =
        Inr (0, ArgU64 1,
             send_world (sconst (Sent 4096))
               \<lparr>sendmsg_log := [features_call, features_call, features_call], errno := e,
                dispatch_log := [(VHOST_USER_SET_FEATURES, ArgU64 1)]\<rparr>)) \<and>
   (\<exists>e. vhost_user_sock client_dev
          (send_world ([SendFailed EINTR] @- (SendFailed EPIPE ## sconst (Sent 4096))))
          VHOST_USER_SET_FEATURES (ArgU64 1) =
        Inr (- 1, ArgU64 1,
             send_world (sconst (Sent 4096))
               \<lparr>sendmsg_log := [features_call, features_call], errno := e,
                dispatch_log := [(VHOST_USER_SET_FEATURES, ArgU64 1)]\<rparr>)) \<and>
   (\<exists>w'. vhost_user_sock client_dev short_send_features VHOST_USER_GET_FEATURES (ArgU64 99) =
        Inr (0, ArgU64 7, w'))"
proof -
  let ?m = "\<lparr>request = 2, flags = 1, msg_size = 8, payload = u64_bytes 1\<rparr>"
  have c: "\<not> (is_server client_dev \<and> vhostfd client_dev < 0)" by (simp add: client_dev_def)
  have sw: "switch_req (send_world s\<lparr>dispatch_log := dispatch_log (send_world s) @
                 [(VHOST_USER_SET_FEATURES, ArgU64 1)]\<rparr>) VHOST_USER_SET_FEATURES (ArgU64 1)
               \<lparr>request = request_code VHOST_USER_SET_FEATURES, flags = VHOST_USER_VERSION,
                 msg_size = 0, payload = []\<rparr> =
             Inr (Some (?m, [], 0, False,
                        send_world s\<lparr>dispatch_log := [(VHOST_USER_SET_FEATURES, ArgU64 1)]\<rparr>))"
    for s
    by (simp add: switch_req_u64 VHOST_USER_VERSION_def sizeof_u64_def send_world_def idle_world_def)
  have sw3: "switch_req (short_send_features\<lparr>dispatch_log := dispatch_log short_send_features @
                 [(VHOST_USER_GET_FEATURES, ArgU64 99)]\<rparr>) VHOST_USER_GET_FEATURES (ArgU64 99)
               \<lparr>request = request_code VHOST_USER_GET_FEATURES, flags = VHOST_USER_VERSION,
                 msg_size = 0, payload = []\<rparr> =
             Inr (Some (\<lparr>request = 1, flags = 1, msg_size = 0, payload = []\<rparr>, [], 0, True,
                        short_send_features\<lparr>dispatch_log := [(VHOST_USER_GET_FEATURES, ArgU64 99)]\<rparr>))"
    by (simp add: switch_req_no_payload VHOST_USER_VERSION_def short_send_features_def
        features_reply_def reply_world_def idle_world_def)
  have s1: "sendmsg_script (send_world ([SendFailed EINTR, SendFailed EINTR] @- (Sent 5 ## sconst (Sent 4096)))) =
      replicate (Suc (Suc 0)) (SendFailed EINTR) @- (Sent 5 ## sconst (Sent 4096))"
    and s2: "sendmsg_script (send_world ([SendFailed EINTR] @- (SendFailed EPIPE ## sconst (Sent 4096)))) =
      replicate (Suc 0) (SendFailed EINTR) @- (SendFailed EPIPE ## sconst (Sent 4096))"
    and s3: "sendmsg_script short_send_features =
      replicate 0 (SendFailed EINTR) @- (Sent 5 ## sconst (Sent 4096))"
    by (simp_all add: send_world_def short_send_features_def)
  have ne: "SendFailed EPIPE \<noteq> SendFailed EINTR" by (simp add: EPIPE_def EINTR_def)
  from send_retries_and_surfaces_failure [OF c sw s1]
  have first: "\<exists>e. vhost_user_sock client_dev
          (send_world ([SendFailed EINTR, SendFailed EINTR] @- (Sent 5 ## sconst (Sent 4096))))
          VHOST_USER_SET_FEATURES (ArgU64 1) =
        Inr (0, ArgU64 1,
             send_world (sconst (Sent 4096))
               \<lparr>sendmsg_log := [features_call, features_call, features_call], errno := e,
                dispatch_log := [(VHOST_USER_SET_FEATURES, ArgU64 1)]\<rparr>)"
    by (simp add: send_world_def idle_world_def client_dev_def features_call_def
        VHOST_USER_HDR_SIZE_def) blast
  from send_retries_and_surfaces_failure [OF c sw s2 ne]
  have second: "\<exists>e. vhost_user_sock client_dev
          (send_world ([SendFailed EINTR] @- (SendFailed EPIPE ## sconst (Sent 4096))))
          VHOST_USER_SET_FEATURES (ArgU64 1) =
        Inr (- 1, ArgU64 1,
             send_world (sconst (Sent 4096))
               \<lparr>sendmsg_log := [features_call, features_call], errno := e,
                dispatch_log := [(VHOST_USER_SET_FEATURES, ArgU64 1)]\<rparr>)"
    by (simp add: send_world_def idle_world_def client_dev_def features_call_def
        VHOST_USER_HDR_SIZE_def) blast
  from send_retries_and_surfaces_failure [OF c sw3 s3]
  have third: "\<exists>w'. vhost_user_sock client_dev short_send_features VHOST_USER_GET_FEATURES
        (ArgU64 99) = Inr (0, ArgU64 7, w')"
    by (auto simp add: vhost_user_read_def recv_def read_header_def copy_reply_def
      short_send_features_def features_reply_def reply_world_def idle_world_def client_dev_def
      hdr_bytes_def Let_def
      VHOST_USER_HDR_SIZE_def VHOST_USER_VERSION_def VHOST_USER_REPLY_MASK_def sizeof_u64_def
      payload_bound_check_scast payload_recv_len_scast
      sizeof_payload_def sizeof_vring_state_def sizeof_vring_addr_def
      sizeof_vhost_memory_def VHOST_MEMORY_MAX_NREGIONS_def sizeof_memory_region_def)
  from first second third show ?thesis by blast
qed

lemma broken_pipe_prepare:
  "prepare_vhost_memory_user (broken_pipe\<lparr>dispatch_log := l\<rparr>) msg =
     Inr (0, msg\<lparr>payload := memory_bytes 2 0 huge_regions\<rparr>, [4, 5],
          broken_pipe\<lparr>dispatch_log := l, open_fds := [5, 4, 0, 1, 2, 3]\<rparr>)"
proof -
  have "get_hugepage_file_info (broken_pipe\<lparr>dispatch_log := l\<rparr>) 8 =
     Inr (2, [\<lparr>hp_addr = 0x7f0000000000, hp_size = 0x80000000, hp_path = ''/dev/hugepages/rtemap_0''\<rparr>,
              \<lparr>hp_addr = 0x7f0040000000, hp_size = 0x40000000, hp_path = ''/dev/hugepages/rtemap_1''\<rparr>])"
    by (simp add: get_hugepage_file_info_def huge_scan correct_size_def huge_world_def broken_pipe_def)
  then show ?thesis
    by (simp add: prepare_vhost_memory_user_def VHOST_MEMORY_MAX_NREGIONS_def open_rdwr_def
        huge_regions_def Let_def)
       (simp add: huge_world_def broken_pipe_def)
qed

subsection \<open>The descriptors of a memory table\<close>

text \<open>
  C3. A set-mem-table whose \<^verbatim>\<open>sendmsg\<close> fails: the two hugepage files have been opened
  as descriptors 4 and 5, the message was handed to \<^verbatim>\<open>sendmsg\<close>, which failed with
  EPIPE, and the dispatcher returns -1 with both descriptors still open. (Where the send
  succeeds they are closed: \<open>huge_dispatch\<close>.)
\<close>

theorem mem_table_send_failure_leaks:
  "vhost_user_sock client_dev broken_pipe VHOST_USER_SET_MEM_TABLE ArgNull =
     Inr (- 1, ArgNull,
          broken_pipe\<lparr>sendmsg_script := sconst (Sent 4096), sendmsg_log := [huge_call],
            errno := EPIPE, open_fds := [5, 4, 0, 1, 2, 3],
            dispatch_log := [(VHOST_USER_SET_MEM_TABLE, ArgNull)]\<rparr>)"
proof -
  have d: "dispatch_log broken_pipe = []" by (simp add: broken_pipe_def huge_world_def)
  show ?thesis
    unfolding vhost_user_sock_def d
    apply (simp add: client_dev_def switch_req_mem_table broken_pipe_prepare Let_def
        vhost_user_write_def VHOST_USER_HDR_SIZE_def sizeof_memory_region_def
        memory_bytes_def [of 2] VHOST_USER_VERSION_def)
    apply (subst sendmsg_retry.simps)
    apply (simp add: sendmsg_def huge_world_def broken_pipe_def huge_call_def
        memory_bytes_def EPIPE_def EINTR_def)
    done
qed

subsection \<open>Memory discovery: which entries\<close>

lemma find_exist_iff: "(0 \<le> find_exist hs tmp k) = (tmp \<in> hp_path ` set hs)"
  by (induction hs arbitrary: k) auto

lemma hugepage_paths_Nil [simp]: "hugepage_paths [] = []"
  by (simp add: hugepage_paths_def)

lemma hugepage_paths_Cons:
  "hugepage_paths (buf # rest) =
     (case hugepage_line buf of None \<Rightarrow> hugepage_paths rest
      | Some (s, e, p) \<Rightarrow> p # hugepage_paths rest)"
  by (simp add: hugepage_paths_def split: option.splits)

lemma hugepage_paths_append [simp]:
  "hugepage_paths (xs @ ys) = hugepage_paths xs @ hugepage_paths ys"
  by (simp add: hugepage_paths_def map_filter_def)

lemma map_filter_hugepage_Cons:
  "List.map_filter hugepage_line (buf # rest) =
     (case hugepage_line buf of None \<Rightarrow> List.map_filter hugepage_line rest
      | Some x \<Rightarrow> x # List.map_filter hugepage_line rest)"
  by simp

text \<open>Where the scan succeeds, its entries are those of \<open>first_seen\<close>.\<close>

lemma scan_maps_first_seen:
  assumes "paths_fit lines"
    and "scan_maps maxn lines huges = Inr (idx, hs)" and "0 \<le> idx"
  shows "hs = first_seen (List.map_filter hugepage_line lines) huges"
  using assms
proof (induction lines arbitrary: huges)
  case Nil
  then show ?case by simp
next
  case (Cons buf rest)
  from Cons.prems(2,3) obtain v_start v_end tmp where
    r: "sscanf_range buf = Some (v_start, v_end)" and p: "path_field buf = Some tmp"
    by (auto split: option.splits)
  show ?case
  proof (cases "hugefile_match tmp")
    case False
    with r p have hl: "hugepage_line buf = None" by (simp add: hugepage_line_def)
    with Cons.prems(1) have fit: "paths_fit rest"
      by (simp add: paths_fit_def hugepage_paths_Cons)
    from Cons.prems(2) r p False have "scan_maps maxn rest huges = Inr (idx, hs)" by simp
    from Cons.IH [OF fit this Cons.prems(3)] hl show ?thesis
      by (simp add: map_filter_hugepage_Cons)
  next
    case True
    with r p have hl: "hugepage_line buf = Some (v_start, v_end, tmp)"
      by (simp add: hugepage_line_def)
    with Cons.prems(1) have fit: "paths_fit rest" and short: "length tmp < PATH_MAX"
      by (simp_all add: paths_fit_def hugepage_paths_Cons)
    from short have tk: "take (PATH_MAX - 1) tmp = tmp" by simp
    show ?thesis
    proof (cases "tmp \<in> hp_path ` set huges")
      case seen: True
      with Cons.prems(2) r p True have "scan_maps maxn rest huges = Inr (idx, hs)"
        by (simp add: find_exist_iff)
      from Cons.IH [OF fit this Cons.prems(3)] hl seen show ?thesis
        by (simp add: map_filter_hugepage_Cons)
    next
      case new: False
      with Cons.prems(2,3) r p True tk
      have "scan_maps maxn rest
              (huges @ [\<lparr>hp_addr = v_start, hp_size = v_end - v_start, hp_path = tmp\<rparr>]) =
            Inr (idx, hs)"
        by (auto simp add: find_exist_iff split: if_splits)
      from Cons.IH [OF fit this Cons.prems(3)] hl new show ?thesis
        by (simp add: map_filter_hugepage_Cons)
    qed
  qed
qed

text \<open>The entries of \<open>first_seen\<close>: one for each path.\<close>

lemma first_seen_append:
  "first_seen (ps @ qs) acc = first_seen qs (first_seen ps acc)"
  by (induction ps acc rule: first_seen.induct) auto

lemma first_seen_paths:
  "hp_path ` set (first_seen ps acc) = hp_path ` set acc \<union> (\<lambda>(s, e, p). p) ` set ps"
  by (induction ps acc rule: first_seen.induct) auto

lemma first_seen_distinct:
  "distinct (map hp_path acc) \<Longrightarrow> distinct (map hp_path (first_seen ps acc))"
  by (induction ps acc rule: first_seen.induct) auto

lemma first_seen_keeps:
  "p \<in> hp_path ` set acc \<Longrightarrow>
   filter (\<lambda>h. hp_path h = p) (first_seen ps acc) = filter (\<lambda>h. hp_path h = p) acc"
  by (induction ps acc rule: first_seen.induct) auto

lemma first_seen_record:
  assumes "p \<notin> (\<lambda>(s, e, p). p) ` set ps"
  shows "filter (\<lambda>h. hp_path h = p) (first_seen (ps @ (s, e, p) # qs) []) =
           [\<lparr>hp_addr = s, hp_size = e - s, hp_path = p\<rparr>]"
proof -
  let ?acc = "first_seen ps []"
  from assms have notin: "p \<notin> hp_path ` set ?acc" by (simp add: first_seen_paths)
  then have none: "filter (\<lambda>h. hp_path h = p) ?acc = []"
    by (auto simp: filter_empty_conv)
  let ?acc2 = "?acc @ [\<lparr>hp_addr = s, hp_size = e - s, hp_path = p\<rparr>]"
  have "first_seen (ps @ (s, e, p) # qs) [] = first_seen qs ?acc2"
    using notin by (simp add: first_seen_append)
  moreover have "p \<in> hp_path ` set ?acc2" by simp
  ultimately have "filter (\<lambda>h. hp_path h = p) (first_seen (ps @ (s, e, p) # qs) []) =
      filter (\<lambda>h. hp_path h = p) ?acc2"
    by (simp only: first_seen_keeps)
  with none show ?thesis by simp
qed

lemma first_seen_length:
  "length (first_seen ps []) = card ((\<lambda>(s, e, p). p) ` set ps)"
proof -
  have "distinct (map hp_path (first_seen ps []))" by (simp add: first_seen_distinct)
  then have "length (first_seen ps []) = card (hp_path ` set (first_seen ps []))"
    by (metis distinct_card length_map set_map)
  then show ?thesis by (simp add: first_seen_paths)
qed

lemma correct_size_path [simp]: "hp_path (correct_size w h) = hp_path h"
  by (simp add: correct_size_def split: option.splits)

lemma filter_path_correct_size:
  "filter (\<lambda>h. hp_path h = p) (map (correct_size w) hs) =
   map (correct_size w) (filter (\<lambda>h. hp_path h = p) hs)"
  by (induction hs) auto

lemma get_hugepage_file_info_entries:
  assumes maps: "proc_self_maps w = Some lines"
    and scan: "scan_maps maxn lines [] = Inr (n, hs0)" and n: "0 \<le> n"
  shows "get_hugepage_file_info w maxn = Inr (n, map (correct_size w) hs0)"
  using assms by (simp add: get_hugepage_file_info_def)

lemma get_hugepage_file_info_scan:
  assumes maps: "proc_self_maps w = Some lines"
    and ok: "get_hugepage_file_info w maxn = Inr (n, hs)" and n: "0 \<le> n"
  shows "\<exists>hs0. scan_maps maxn lines [] = Inr (n, hs0) \<and> hs = map (correct_size w) hs0"
  using assms
  by (auto simp: get_hugepage_file_info_def split: sum.splits if_splits)

text \<open>The entry the scan makes for a path, from the first line that has it.\<close>

lemma scan_maps_record:
  assumes fit: "paths_fit (before @ l # after)"
    and l: "hugepage_line l = Some (v_start, v_end, tmp)"
    and first: "tmp \<notin> set (hugepage_paths before)"
    and scan: "scan_maps maxn (before @ l # after) [] = Inr (n, hs0)" and n: "0 \<le> n"
  shows "filter (\<lambda>h. hp_path h = tmp) hs0 =
           [\<lparr>hp_addr = v_start, hp_size = v_end - v_start, hp_path = tmp\<rparr>]"
proof -
  from scan_maps_first_seen [OF fit scan n]
  have eq: "hs0 = first_seen (List.map_filter hugepage_line before @ (v_start, v_end, tmp) #
                  List.map_filter hugepage_line after) []"
    by (simp add: map_filter_def l)
  from first have "tmp \<notin> (\<lambda>(s, e, p). p) ` set (List.map_filter hugepage_line before)"
    by (simp add: hugepage_paths_def)
  from first_seen_record [OF this] show ?thesis unfolding eq .
qed

subsection \<open>Paths longer than the path member\<close>

lemma cut_newline_snoc: "cut_newline (p @ [CHR 0x0A]) = p"
  by (simp add: cut_newline_def)

lemma dropWhile_hd: "p \<noteq> [] \<Longrightarrow> \<not> P (hd p) \<Longrightarrow> dropWhile P p = p"
  by (cases p) auto

lemma skip_field_Cons:
  "skip_field (c # s) = (if c = CHR '' '' then Some s else skip_field s)"
  by (simp add: skip_field_def)

lemma skip_field_blank:
  "CHR '' '' \<notin> set r \<Longrightarrow> skip_field (r @ CHR '' '' # rest) = Some rest"
  by (induction r) (auto simp add: skip_field_Cons)

lemma path_field_maps_line:
  assumes "CHR '' '' \<notin> set addrs" and "p \<noteq> []" and "hd p \<noteq> CHR '' ''"
  shows "path_field (maps_line addrs p) = Some p"
proof -
  have "dropWhile (\<lambda>c. c = CHR '' '') (p @ [CHR 0x0A]) = p @ [CHR 0x0A]"
    using assms(2,3) by (intro dropWhile_hd) auto
  then have "path_field (addrs @ CHR '' '' # ''rw-s 00000000 00:0e 12345    '' @ p @ [CHR 0x0A]) =
      Some p"
    by (simp add: path_field_def skip_field_blank [OF assms(1)] skip_field_Cons cut_newline_snoc)
  then show ?thesis by (simp add: maps_line_def)
qed

lemma sscanf_range_maps_line:
  "sscanf_range (maps_line ''7f0000000000-7f0040000000'' p) = Some (0x7f0000000000, 0x7f0040000000)"
  "sscanf_range (maps_line ''7f0040000000-7f0080000000'' p) = Some (0x7f0040000000, 0x7f0080000000)"
  "sscanf_range (maps_line ''7f0080000000-7f00c0000000'' p) = Some (0x7f0080000000, 0x7f00c0000000)"
  "sscanf_range (maps_line ''7f00c0000000-7f0100000000'' p) = Some (0x7f00c0000000, 0x7f0100000000)"
  "sscanf_range (maps_line ''7f0100000000-7f0140000000'' p) = Some (0x7f0100000000, 0x7f0140000000)"
  "sscanf_range (maps_line ''7f0140000000-7f0180000000'' p) = Some (0x7f0140000000, 0x7f0180000000)"
  "sscanf_range (maps_line ''7f0180000000-7f01c0000000'' p) = Some (0x7f0180000000, 0x7f01c0000000)"
  "sscanf_range (maps_line ''7f01c0000000-7f0200000000'' p) = Some (0x7f01c0000000, 0x7f0200000000)"
  "sscanf_range (maps_line ''7f0200000000-7f0240000000'' p) = Some (0x7f0200000000, 0x7f0240000000)"
  by (simp_all add: maps_line_def sscanf_range_def scan_hex_def isspace_def starts_with_def
      xdigit_val_def)

lemma hugefile_match_rtemap:
  "hugefile_match (q @ ''rtemap_0'')" "hugefile_match (q @ ''rtemap_00'')"
  by (simp_all add: hugefile_match_def str_underline_def scan_map_index_def isspace_def
      starts_with_def isdigit_def)

lemma long_prefix_length: "length long_prefix = 4087"
  by (simp add: long_prefix_def)

lemma long_prefix_hd: "long_prefix \<noteq> []" "hd long_prefix = CHR ''/''"
  by (simp_all add: long_prefix_def)

lemma long_path_length: "length cut_path = 4095" "length long_path = 4096"
  by (simp_all add: cut_path_def long_path_def long_prefix_length)

lemma long_path_hd:
  "cut_path \<noteq> []" "hd cut_path \<noteq> CHR '' ''" "long_path \<noteq> []" "hd long_path \<noteq> CHR '' ''"
  by (simp_all add: cut_path_def long_path_def long_prefix_hd)

lemma long_path_match: "hugefile_match cut_path" "hugefile_match long_path"
  by (simp_all add: cut_path_def long_path_def hugefile_match_rtemap)

lemma long_path_cut:
  "take (PATH_MAX - 1) long_path = cut_path" "take 4095 long_path = cut_path"
  by (simp_all add: PATH_MAX_def long_path_def cut_path_def long_prefix_length)

lemma long_path_neq: "cut_path \<noteq> long_path" "long_path \<noteq> cut_path"
  by (simp_all add: cut_path_def long_path_def)

lemma long_path_short:
  "length s < 4095 \<Longrightarrow> cut_path \<noteq> s" "length s < 4095 \<Longrightarrow> s \<noteq> cut_path"
  "length s < 4095 \<Longrightarrow> long_path \<noteq> s" "length s < 4095 \<Longrightarrow> s \<noteq> long_path"
  using long_path_length by auto


lemmas long_path_facts = sscanf_range_maps_line path_field_maps_line long_path_hd
  long_path_match long_path_cut long_path_neq long_path_short long_path_length

lemma two_long_scan:
  "scan_maps 8 two_long [] =
     Inr (2, [\<lparr>hp_addr = 0x7f0000000000, hp_size = 0x40000000, hp_path = cut_path\<rparr>,
              \<lparr>hp_addr = 0x7f0040000000, hp_size = 0x40000000, hp_path = cut_path\<rparr>])"
  by (simp add: two_long_def long_path_facts PATH_MAX_def)

lemma two_long_paths: "hugepage_paths two_long = [long_path, long_path]"
  by (simp add: two_long_def hugepage_paths_def map_filter_def hugepage_line_def long_path_facts)

lemma short_path_match:
  "hugefile_match ''/dev/hugepages/rtemap_2''" "hugefile_match ''/dev/hugepages/rtemap_3''"
  "hugefile_match ''/dev/hugepages/rtemap_4''" "hugefile_match ''/dev/hugepages/rtemap_5''"
  "hugefile_match ''/dev/hugepages/rtemap_6''" "hugefile_match ''/dev/hugepages/rtemap_7''"
  "hugefile_match ''/dev/hugepages/rtemap_8''"
  by (simp_all add: hugefile_match_def str_underline_def scan_map_index_def isspace_def
      starts_with_def isdigit_def)

lemma nine_deep_scan:
  "scan_maps 8 nine_deep [] =
     Inr (8, [\<lparr>hp_addr = 0x7f0000000000, hp_size = 0x40000000, hp_path = cut_path\<rparr>,
              \<lparr>hp_addr = 0x7f0080000000, hp_size = 0x40000000, hp_path = ''/dev/hugepages/rtemap_2''\<rparr>,
              \<lparr>hp_addr = 0x7f00c0000000, hp_size = 0x40000000, hp_path = ''/dev/hugepages/rtemap_3''\<rparr>,
              \<lparr>hp_addr = 0x7f0100000000, hp_size = 0x40000000, hp_path = ''/dev/hugepages/rtemap_4''\<rparr>,
              \<lparr>hp_addr = 0x7f0140000000, hp_size = 0x40000000, hp_path = ''/dev/hugepages/rtemap_5''\<rparr>,
              \<lparr>hp_addr = 0x7f0180000000, hp_size = 0x40000000, hp_path = ''/dev/hugepages/rtemap_6''\<rparr>,
              \<lparr>hp_addr = 0x7f01c0000000, hp_size = 0x40000000, hp_path = ''/dev/hugepages/rtemap_7''\<rparr>,
              \<lparr>hp_addr = 0x7f0200000000, hp_size = 0x40000000, hp_path = ''/dev/hugepages/rtemap_8''\<rparr>])"
  by (simp add: nine_deep_def long_path_facts short_path_match PATH_MAX_def)

lemma nine_deep_paths:
  "hugepage_paths nine_deep =
     [long_path, cut_path, ''/dev/hugepages/rtemap_2'', ''/dev/hugepages/rtemap_3'',
      ''/dev/hugepages/rtemap_4'', ''/dev/hugepages/rtemap_5'', ''/dev/hugepages/rtemap_6'',
      ''/dev/hugepages/rtemap_7'', ''/dev/hugepages/rtemap_8'']"
  by (simp add: nine_deep_def hugepage_paths_def map_filter_def hugepage_line_def
      long_path_facts short_path_match)

lemma nine_deep_distinct: "distinct (hugepage_paths nine_deep)"
  by (simp add: nine_deep_paths long_path_facts)

lemma bare_lines_scan: "scan_maps 8 bare_lines [] = Inl NullPointer"
  by (simp add: bare_lines_def scan_defs)

subsection \<open>One record for each backing file\<close>

text \<open>
  C6, as the specification has it, fails: the path member holds \<^verbatim>\<open>PATH_MAX - 1\<close>
  characters, and a longer path is recorded cut but compared whole. A file whose path has
  \<^verbatim>\<open>PATH_MAX\<close> characters, mapped in two pieces, gets two records, both with the cut
  path.
\<close>

theorem long_path_recorded_twice:
  "length long_path = PATH_MAX \<and>
   hugepage_paths two_long = [long_path, long_path] \<and>
   get_hugepage_file_info (maps_world (Some two_long)) 8 =
     Inr (2, [\<lparr>hp_addr = 0x7f0000000000, hp_size = 0x40000000, hp_path = cut_path\<rparr>,
              \<lparr>hp_addr = 0x7f0040000000, hp_size = 0x40000000, hp_path = cut_path\<rparr>])"
  by (simp add: long_path_length PATH_MAX_def two_long_paths get_hugepage_file_info_def
      maps_world_def two_long_scan correct_size_def idle_world_def)

text \<open>
  C6, amended. In a mapping table whose hugepage paths are shorter than \<^verbatim>\<open>PATH_MAX\<close>
  and where the path of a hugepage file stands on several lines, a discovery that succeeds
  returns exactly one record with that path: its address is the start of the first line
  that has the path, and, \<^verbatim>\<open>stat\<close> giving the size of the file, its size is that size,
  not the extent of a mapping.
\<close>

theorem discovery_one_record_per_file:
  assumes maps: "proc_self_maps w = Some (before @ l # after)"
    and fit: "paths_fit (before @ l # after)"
    and l: "hugepage_line l = Some (v_start, v_end, tmp)"
    and first: "tmp \<notin> set (hugepage_paths before)"
    and stat: "stat_size w tmp = Some sz"
    and ok: "get_hugepage_file_info w maxn = Inr (n, hs)" and n: "0 \<le> n"
  shows "filter (\<lambda>h. hp_path h = tmp) hs = [\<lparr>hp_addr = v_start, hp_size = sz, hp_path = tmp\<rparr>]"
proof -
  from get_hugepage_file_info_scan [OF maps ok n] obtain hs0 where
    scan: "scan_maps maxn (before @ l # after) [] = Inr (n, hs0)"
    and hs: "hs = map (correct_size w) hs0" by blast
  from scan_maps_record [OF fit l first scan n] stat show ?thesis
    by (simp add: hs filter_path_correct_size correct_size_def)
qed

theorem discovery_one_record_per_file_witness:
  "get_hugepage_file_info huge_world 8 =
     Inr (2, [\<lparr>hp_addr = 0x7f0000000000, hp_size = 0x80000000, hp_path = ''/dev/hugepages/rtemap_0''\<rparr>,
              \<lparr>hp_addr = 0x7f0040000000, hp_size = 0x40000000, hp_path = ''/dev/hugepages/rtemap_1''\<rparr>]) \<and>
   stat_size huge_world ''/dev/hugepages/rtemap_0'' = Some 0x80000000 \<and>
   filter (\<lambda>h. hp_path h = ''/dev/hugepages/rtemap_0'')
     [\<lparr>hp_addr = 0x7f0000000000, hp_size = 0x80000000, hp_path = ''/dev/hugepages/rtemap_0''\<rparr>,
      \<lparr>hp_addr = 0x7f0040000000, hp_size = 0x40000000, hp_path = ''/dev/hugepages/rtemap_1''\<rparr>] =
     [\<lparr>hp_addr = 0x7f0000000000, hp_size = 0x80000000, hp_path = ''/dev/hugepages/rtemap_0''\<rparr>]"
proof -
  let ?before = "[''00400000-00452000 r-xp 00000000 08:02 173521      /usr/bin/dbus-daemon'' @ [CHR 0x0A]]"
  let ?l = "''7f0000000000-7f0040000000 rw-s 00000000 00:0e 12345    /dev/hugepages/rtemap_0'' @ [CHR 0x0A]"
  let ?after = "[''7f0040000000-7f0080000000 rw-s 00000000 00:0e 12346    /dev/hugepages/rtemap_1'' @ [CHR 0x0A],
      ''7f0080000000-7f00c0000000 rw-s 40000000 00:0e 12345    /dev/hugepages/rtemap_0'' @ [CHR 0x0A],
      ''7ffd1c0a0000-7ffd1c0c1000 rw-p 00000000 00:00 0                          [stack]'' @ [CHR 0x0A]]"
  have maps: "proc_self_maps huge_world = Some (?before @ ?l # ?after)"
    by (simp add: huge_world_def huge_lines_def)
  have fit: "paths_fit (?before @ ?l # ?after)"
    by (simp add: paths_fit_def hugepage_paths_def map_filter_def hugepage_line_def scan_defs)
  have l: "hugepage_line ?l = Some (0x7f0000000000, 0x7f0040000000, ''/dev/hugepages/rtemap_0'')"
    by (simp add: hugepage_line_def scan_defs)
  have first: "''/dev/hugepages/rtemap_0'' \<notin> set (hugepage_paths ?before)"
    by (simp add: hugepage_paths_def map_filter_def hugepage_line_def scan_defs)
  have stat: "stat_size huge_world ''/dev/hugepages/rtemap_0'' = Some 0x80000000"
    by (simp add: huge_world_def)
  have ok: "get_hugepage_file_info huge_world 8 =
     Inr (2, [\<lparr>hp_addr = 0x7f0000000000, hp_size = 0x80000000, hp_path = ''/dev/hugepages/rtemap_0''\<rparr>,
              \<lparr>hp_addr = 0x7f0040000000, hp_size = 0x40000000, hp_path = ''/dev/hugepages/rtemap_1''\<rparr>])"
    using huge_info [of "[]"] by (simp add: huge_world_def)
  from discovery_one_record_per_file [OF maps fit l first stat ok] ok stat show ?thesis by simp
qed

subsection \<open>A file that cannot be examined\<close>

text \<open>
  C10. Where the first loop of the discovery completes and \<^verbatim>\<open>stat\<close> fails on the
  path of a recorded file, the discovery does not fail: it returns the number of records
  all the same, and the record of that path keeps as its size the extent of the first
  mapping seen with the path, which need not be the length of the file.
\<close>

theorem stat_failure_keeps_placeholder:
  assumes maps: "proc_self_maps w = Some (before @ l # after)"
    and fit: "paths_fit (before @ l # after)"
    and l: "hugepage_line l = Some (v_start, v_end, tmp)"
    and first: "tmp \<notin> set (hugepage_paths before)"
    and stat: "stat_size w tmp = None"
    and scan: "scan_maps maxn (before @ l # after) [] = Inr (n, hs0)" and n: "0 \<le> n"
  shows "\<exists>hs. get_hugepage_file_info w maxn = Inr (n, hs) \<and>
           filter (\<lambda>h. hp_path h = tmp) hs =
             [\<lparr>hp_addr = v_start, hp_size = v_end - v_start, hp_path = tmp\<rparr>]"
proof -
  from get_hugepage_file_info_entries [OF maps scan n]
  have "get_hugepage_file_info w maxn = Inr (n, map (correct_size w) hs0)" .
  moreover from scan_maps_record [OF fit l first scan n] stat
  have "filter (\<lambda>h. hp_path h = tmp) (map (correct_size w) hs0) =
      [\<lparr>hp_addr = v_start, hp_size = v_end - v_start, hp_path = tmp\<rparr>]"
    by (simp add: filter_path_correct_size correct_size_def)
  ultimately show ?thesis by blast
qed


theorem stat_failure_keeps_placeholder_witness:
  "stat_size huge_world ''/dev/hugepages/rtemap_1'' = None \<and>
   (\<exists>hs. get_hugepage_file_info huge_world 8 = Inr (2, hs) \<and>
      filter (\<lambda>h. hp_path h = ''/dev/hugepages/rtemap_1'') hs =
        [\<lparr>hp_addr = 0x7f0040000000, hp_size = 0x40000000, hp_path = ''/dev/hugepages/rtemap_1''\<rparr>])"
proof -
  let ?before = "[''00400000-00452000 r-xp 00000000 08:02 173521      /usr/bin/dbus-daemon'' @ [CHR 0x0A],
      ''7f0000000000-7f0040000000 rw-s 00000000 00:0e 12345    /dev/hugepages/rtemap_0'' @ [CHR 0x0A]]"
  let ?l = "''7f0040000000-7f0080000000 rw-s 00000000 00:0e 12346    /dev/hugepages/rtemap_1'' @ [CHR 0x0A]"
  let ?after = "[''7f0080000000-7f00c0000000 rw-s 40000000 00:0e 12345    /dev/hugepages/rtemap_0'' @ [CHR 0x0A],
      ''7ffd1c0a0000-7ffd1c0c1000 rw-p 00000000 00:00 0                          [stack]'' @ [CHR 0x0A]]"
  have maps: "proc_self_maps huge_world = Some (?before @ ?l # ?after)"
    by (simp add: huge_world_def huge_lines_def)
  have fit: "paths_fit (?before @ ?l # ?after)"
    by (simp add: paths_fit_def hugepage_paths_def map_filter_def hugepage_line_def scan_defs)
  have l: "hugepage_line ?l = Some (0x7f0040000000, 0x7f0080000000, ''/dev/hugepages/rtemap_1'')"
    by (simp add: hugepage_line_def scan_defs)
  have first: "''/dev/hugepages/rtemap_1'' \<notin> set (hugepage_paths ?before)"
    by (simp add: hugepage_paths_def map_filter_def hugepage_line_def scan_defs)
  have stat: "stat_size huge_world ''/dev/hugepages/rtemap_1'' = None"
    by (simp add: huge_world_def)
  have scan: "scan_maps 8 (?before @ ?l # ?after) [] =
     Inr (2, [\<lparr>hp_addr = 0x7f0000000000, hp_size = 0x40000000, hp_path = ''/dev/hugepages/rtemap_0''\<rparr>,
              \<lparr>hp_addr = 0x7f0040000000, hp_size = 0x40000000, hp_path = ''/dev/hugepages/rtemap_1''\<rparr>])"
    using huge_scan by (simp add: huge_lines_def)
  from stat_failure_keeps_placeholder [OF maps fit l first stat scan] stat show ?thesis by simp
qed

subsection \<open>Memory discovery: failures\<close>

lemma scan_maps_well_spaced:
  "well_spaced lines \<Longrightarrow>
   \<exists>idx hs. scan_maps maxn lines huges = Inr (idx, hs) \<and> (idx = - 1 \<or> 0 \<le> idx)"
proof (induction lines arbitrary: huges)
  case Nil
  show ?case by simp
next
  case (Cons buf rest)
  then have rest: "well_spaced rest"
    and buf: "sscanf_range buf = None \<or> path_field buf \<noteq> None"
    by (simp_all add: well_spaced_def)
  show ?case
  proof (cases "sscanf_range buf")
    case None
    then show ?thesis by simp
  next
    case (Some range)
    with buf obtain tmp where "path_field buf = Some tmp" by auto
    with Some Cons.IH [OF rest] show ?thesis
      by (cases range) auto
  qed
qed

lemma scan_maps_parse_failure:
  "well_spaced lines \<Longrightarrow> list_ex (\<lambda>l. sscanf_range l = None) lines \<Longrightarrow>
   \<exists>hs. scan_maps maxn lines huges = Inr (- 1, hs)"
proof (induction lines arbitrary: huges)
  case Nil
  then show ?case by simp
next
  case (Cons buf rest)
  then have rest: "well_spaced rest"
    and buf: "sscanf_range buf = None \<or> path_field buf \<noteq> None"
    by (simp_all add: well_spaced_def)
  show ?case
  proof (cases "sscanf_range buf")
    case None
    then show ?thesis by simp
  next
    case (Some range)
    with Cons.prems(2) have "list_ex (\<lambda>l. sscanf_range l = None) rest" by simp
    note ih = Cons.IH [OF rest this]
    from Some buf obtain tmp where "path_field buf = Some tmp" by auto
    with Some ih show ?thesis
      by (cases range) auto
  qed
qed

lemma scan_maps_too_many:
  assumes ws: "well_spaced lines" and fit: "paths_fit lines" and m: "0 \<le> maxn"
    and many: "maxn < int (length (remdups (hugepage_paths lines)))"
  shows "\<exists>hs. scan_maps maxn lines [] = Inr (- 1, hs)"
proof -
  from scan_maps_well_spaced [OF ws] obtain idx hs where
    s: "scan_maps maxn lines [] = Inr (idx, hs)" and i: "idx = - 1 \<or> 0 \<le> idx" by blast
  have "idx = - 1"
  proof (rule ccontr)
    assume "idx \<noteq> - 1"
    with i have pos: "0 \<le> idx" by simp
    from scan_maps_first_seen [OF fit s pos]
    have "length hs = card ((\<lambda>(s, e, p). p) ` set (List.map_filter hugepage_line lines))"
      by (simp add: first_seen_length)
    also have "\<dots> = length (remdups (hugepage_paths lines))"
      by (simp add: hugepage_paths_def length_remdups_card_conv)
    finally have "length hs = length (remdups (hugepage_paths lines))" .
    moreover from scan_maps_bound [OF s pos] m have "int (length hs) \<le> maxn" by simp
    ultimately show False using many by simp
  qed
  with s show ?thesis by blast
qed

text \<open>
  C7, as the specification has it, fails twice. Of nine distinct hugepage files, the first
  with a path of \<^verbatim>\<open>PATH_MAX\<close> characters and the second with what is recorded of it,
  the second is taken for the first: the discovery returns 8, not -1. And a line that ends
  behind its address range makes \<^verbatim>\<open>strchr\<close> return the null pointer, which is
  dereferenced: the line without an address range behind it is never reached, and the
  discovery does not return -1.
\<close>

theorem nine_files_eight_records:
  "distinct (hugepage_paths nine_deep) \<and> length (hugepage_paths nine_deep) = 9 \<and>
   get_hugepage_file_info (maps_world (Some nine_deep)) 8 =
     Inr (8, [\<lparr>hp_addr = 0x7f0000000000, hp_size = 0x40000000, hp_path = cut_path\<rparr>,
              \<lparr>hp_addr = 0x7f0080000000, hp_size = 0x40000000, hp_path = ''/dev/hugepages/rtemap_2''\<rparr>,
              \<lparr>hp_addr = 0x7f00c0000000, hp_size = 0x40000000, hp_path = ''/dev/hugepages/rtemap_3''\<rparr>,
              \<lparr>hp_addr = 0x7f0100000000, hp_size = 0x40000000, hp_path = ''/dev/hugepages/rtemap_4''\<rparr>,
              \<lparr>hp_addr = 0x7f0140000000, hp_size = 0x40000000, hp_path = ''/dev/hugepages/rtemap_5''\<rparr>,
              \<lparr>hp_addr = 0x7f0180000000, hp_size = 0x40000000, hp_path = ''/dev/hugepages/rtemap_6''\<rparr>,
              \<lparr>hp_addr = 0x7f01c0000000, hp_size = 0x40000000, hp_path = ''/dev/hugepages/rtemap_7''\<rparr>,
              \<lparr>hp_addr = 0x7f0200000000, hp_size = 0x40000000, hp_path = ''/dev/hugepages/rtemap_8''\<rparr>]) \<and>
   list_ex (\<lambda>l. sscanf_range l = None) bare_lines \<and>
   get_hugepage_file_info (maps_world (Some bare_lines)) 8 = Inl NullPointer"
proof -
  have "length (hugepage_paths nine_deep) = 9" by (simp add: nine_deep_paths)
  moreover have "list_ex (\<lambda>l. sscanf_range l = None) bare_lines"
    by (simp add: bare_lines_def scan_defs)
  moreover have "get_hugepage_file_info (maps_world (Some bare_lines)) 8 = Inl NullPointer"
    by (simp add: get_hugepage_file_info_def maps_world_def bare_lines_scan)
  moreover have "get_hugepage_file_info (maps_world (Some nine_deep)) 8 =
     Inr (8, [\<lparr>hp_addr = 0x7f0000000000, hp_size = 0x40000000, hp_path = cut_path\<rparr>,
              \<lparr>hp_addr = 0x7f0080000000, hp_size = 0x40000000, hp_path = ''/dev/hugepages/rtemap_2''\<rparr>,
              \<lparr>hp_addr = 0x7f00c0000000, hp_size = 0x40000000, hp_path = ''/dev/hugepages/rtemap_3''\<rparr>,
              \<lparr>hp_addr = 0x7f0100000000, hp_size = 0x40000000, hp_path = ''/dev/hugepages/rtemap_4''\<rparr>,
              \<lparr>hp_addr = 0x7f0140000000, hp_size = 0x40000000, hp_path = ''/dev/hugepages/rtemap_5''\<rparr>,
              \<lparr>hp_addr = 0x7f0180000000, hp_size = 0x40000000, hp_path = ''/dev/hugepages/rtemap_6''\<rparr>,
              \<lparr>hp_addr = 0x7f01c0000000, hp_size = 0x40000000, hp_path = ''/dev/hugepages/rtemap_7''\<rparr>,
              \<lparr>hp_addr = 0x7f0200000000, hp_size = 0x40000000, hp_path = ''/dev/hugepages/rtemap_8''\<rparr>])"
    by (simp add: get_hugepage_file_info_def maps_world_def nine_deep_scan correct_size_def
        idle_world_def)
  ultimately show ?thesis
    using nine_deep_distinct by blast
qed

text \<open>
  C7, amended. The discovery returns -1: where /proc/self/maps cannot be opened; where a
  line of the table, each line with an address range having its five blanks, has no
  address range to parse; and where the table, each line with an address range having its
  five blanks and the hugepage paths being shorter than \<^verbatim>\<open>PATH_MAX\<close>, names more
  distinct hugepage files than the maximum asked for, so nine files with the maximum 8 are
  not cut down to eight.
\<close>

theorem discovery_fails:
  assumes m: "0 \<le> maxn"
    and bad: "proc_self_maps w = None \<or>
      (\<exists>lines. proc_self_maps w = Some lines \<and> well_spaced lines \<and>
         (list_ex (\<lambda>l. sscanf_range l = None) lines \<or>
          paths_fit lines \<and> maxn < int (length (remdups (hugepage_paths lines)))))"
  shows "\<exists>hs. get_hugepage_file_info w maxn = Inr (- 1, hs)"
  using bad
proof
  assume "proc_self_maps w = None"
  then show ?thesis by (simp add: get_hugepage_file_info_def)
next
  assume "\<exists>lines. proc_self_maps w = Some lines \<and> well_spaced lines \<and>
         (list_ex (\<lambda>l. sscanf_range l = None) lines \<or>
          paths_fit lines \<and> maxn < int (length (remdups (hugepage_paths lines))))"
  then obtain lines where maps: "proc_self_maps w = Some lines" and ws: "well_spaced lines"
    and c: "list_ex (\<lambda>l. sscanf_range l = None) lines \<or>
          paths_fit lines \<and> maxn < int (length (remdups (hugepage_paths lines)))" by blast
  from c have "\<exists>hs. scan_maps maxn lines [] = Inr (- 1, hs)"
  proof
    assume "list_ex (\<lambda>l. sscanf_range l = None) lines"
    from scan_maps_parse_failure [OF ws this] show ?thesis .
  next
    assume "paths_fit lines \<and> maxn < int (length (remdups (hugepage_paths lines)))"
    with scan_maps_too_many [OF ws _ m] show ?thesis by blast
  qed
  with maps show ?thesis by (auto simp add: get_hugepage_file_info_def)
qed

theorem discovery_fails_witness:
  "(\<exists>hs. get_hugepage_file_info (maps_world None) 8 = Inr (- 1, hs)) \<and>
   list_ex (\<lambda>l. sscanf_range l = None) garbled_lines \<and>
   (\<exists>hs. get_hugepage_file_info (maps_world (Some garbled_lines)) 8 = Inr (- 1, hs)) \<and>
   length (remdups (hugepage_paths nine_lines)) = 9 \<and>
   (\<exists>hs. get_hugepage_file_info (maps_world (Some nine_lines)) 8 = Inr (- 1, hs))"
proof -
  have g: "list_ex (\<lambda>l. sscanf_range l = None) garbled_lines"
    by (simp add: garbled_lines_def scan_defs)
  have gw: "well_spaced garbled_lines"
    by (simp add: well_spaced_def garbled_lines_def scan_defs)
  have np: "hugepage_paths nine_lines =
      [''/dev/hugepages/rtemap_0'', ''/dev/hugepages/rtemap_1'', ''/dev/hugepages/rtemap_2'',
       ''/dev/hugepages/rtemap_3'', ''/dev/hugepages/rtemap_4'', ''/dev/hugepages/rtemap_5'',
       ''/dev/hugepages/rtemap_6'', ''/dev/hugepages/rtemap_7'', ''/dev/hugepages/rtemap_8'']"
    by (simp add: hugepage_paths_def map_filter_def hugepage_line_def nine_lines_def scan_defs)
  have nw: "well_spaced nine_lines"
    by (simp add: well_spaced_def nine_lines_def scan_defs)
  have nf: "paths_fit nine_lines" by (simp add: paths_fit_def np PATH_MAX_def)
  have nn: "length (remdups (hugepage_paths nine_lines)) = 9" by (simp add: np)
  have m0: "proc_self_maps (maps_world None) = None"
    and m1: "proc_self_maps (maps_world (Some garbled_lines)) = Some garbled_lines"
    and m2: "proc_self_maps (maps_world (Some nine_lines)) = Some nine_lines"
    by (simp_all add: maps_world_def)
  from discovery_fails [of 8 "maps_world None"] m0
    discovery_fails [of 8 "maps_world (Some garbled_lines)"] m1 g gw
    discovery_fails [of 8 "maps_world (Some nine_lines)"] m2 nw nf nn
  show ?thesis by simp
qed

subsection \<open>Returning\<close>

lemma keeps_sending_sconst: "res \<noteq> SendFailed EINTR \<Longrightarrow> keeps_sending (sconst res)"
  by (simp add: keeps_sending_def)

lemma keeps_sending_SCons: "keeps_sending s \<Longrightarrow> keeps_sending (x ## s)"
proof -
  assume ks: "keeps_sending s"
  show ?thesis
    unfolding keeps_sending_def
  proof
    fix n
    from ks obtain k where "s !! (n + k) \<noteq> SendFailed EINTR"
      unfolding keeps_sending_def by blast
    then have "(x ## s) !! (n + Suc k) \<noteq> SendFailed EINTR" by simp
    then show "\<exists>k. (x ## s) !! (n + k) \<noteq> SendFailed EINTR" ..
  qed
qed

lemma keeps_sending_sdrop: "keeps_sending s \<Longrightarrow> keeps_sending (sdrop m s)"
  unfolding keeps_sending_def
proof
  fix n
  assume a: "\<forall>n. \<exists>k. s !! (n + k) \<noteq> SendFailed EINTR"
  then obtain k where "s !! ((m + n) + k) \<noteq> SendFailed EINTR" by blast
  then have "sdrop m s !! (n + k) \<noteq> SendFailed EINTR" by (simp add: sdrop_snth add.assoc)
  then show "\<exists>k. sdrop m s !! (n + k) \<noteq> SendFailed EINTR" ..
qed

lemma keeps_sending_split:
  assumes "keeps_sending s"
  shows "\<exists>k res rest. s = replicate k (SendFailed EINTR) @- (res ## rest) \<and> res \<noteq> SendFailed EINTR"
proof -
  from assms obtain k0 where k0: "s !! k0 \<noteq> SendFailed EINTR"
    unfolding keeps_sending_def by (metis add_0)
  define k where "k = (LEAST k. s !! k \<noteq> SendFailed EINTR)"
  from k0 have res: "s !! k \<noteq> SendFailed EINTR" unfolding k_def by (rule LeastI)
  have before: "s !! i = SendFailed EINTR" if "i < k" for i
    using that not_less_Least unfolding k_def by blast
  have "stake k s = replicate k (SendFailed EINTR)"
    by (rule nth_equalityI) (simp_all add: before)
  moreover have "sdrop k s = s !! k ## sdrop (Suc k) s"
    by (metis sdrop_simps(1) sdrop_simps(2) stream.collapse sdrop.simps(2) sdrop_stl)
  moreover have "s = stake k s @- sdrop k s" by (simp add: stake_sdrop)
  ultimately have "s = replicate k (SendFailed EINTR) @- (s !! k ## sdrop (Suc k) s)" by simp
  with res show ?thesis by blast
qed

text \<open>
  On such a script the retry loop returns, and so does the dispatcher; the script that is
  left is of the same kind.
\<close>

lemma vhost_user_write_returns:
  assumes "keeps_sending (sendmsg_script w)"
  shows "vhost_user_write w fd buf len fds fd_num \<noteq> None"
proof -
  from keeps_sending_split [OF assms] obtain k res rest where
    "sendmsg_script w = replicate k (SendFailed EINTR) @- (res ## rest)" "res \<noteq> SendFailed EINTR"
    by blast
  from sendmsg_retry_returns [OF this] show ?thesis
    unfolding vhost_user_write_def by (metis option.distinct(1))
qed

lemma scan_maps_fault: "scan_maps maxn lines huges = Inl f \<Longrightarrow> f = NullPointer"
  by (induction lines arbitrary: huges) (auto split: option.splits if_splits)

lemma prepare_vhost_memory_user_fault:
  "prepare_vhost_memory_user w msg = Inl f \<Longrightarrow> f = NullPointer"
  by (auto simp: prepare_vhost_memory_user_def get_hugepage_file_info_def
      split: sum.splits option.splits prod.splits if_splits dest: scan_maps_fault)

lemma switch_req_fault: "switch_req w req a msg = Inl f \<Longrightarrow> f \<noteq> NoReturn"
proof -
  assume sw: "switch_req w req a msg = Inl f"
  consider (none) "req = VHOST_USER_GET_FEATURES \<or> req = VHOST_USER_SET_OWNER \<or>
        req = VHOST_USER_RESET_OWNER"
    | (other) c where "req = VHOST_USER_OTHER c"
    | (logfd) "req = VHOST_USER_SET_LOG_FD"
    | (u64) "req = VHOST_USER_SET_FEATURES \<or> req = VHOST_USER_SET_LOG_BASE"
    | (state) "req = VHOST_USER_SET_VRING_NUM \<or> req = VHOST_USER_SET_VRING_BASE \<or>
        req = VHOST_USER_SET_VRING_ENABLE \<or> req = VHOST_USER_GET_VRING_BASE"
    | (addr) "req = VHOST_USER_SET_VRING_ADDR"
    | (kick) "req = VHOST_USER_SET_VRING_KICK \<or> req = VHOST_USER_SET_VRING_CALL \<or>
        req = VHOST_USER_SET_VRING_ERR"
    | (mem) "req = VHOST_USER_SET_MEM_TABLE"
    by (cases req) auto
  then show ?thesis
  proof cases
    case none
    with sw show ?thesis by (auto simp: switch_req_no_payload)
  next
    case other
    with sw show ?thesis by (simp add: switch_req_no_payload)
  next
    case logfd
    with sw show ?thesis by (auto simp: switch_req_log_fd split: arg.splits)
  next
    case u64
    from sw show ?thesis by (auto simp: switch_req_u64 [OF u64] split: arg.splits)
  next
    case state
    from sw show ?thesis by (auto simp: switch_req_state [OF state] split: arg.splits)
  next
    case addr
    with sw show ?thesis by (auto simp: switch_req_addr split: arg.splits)
  next
    case kick
    from sw show ?thesis by (auto simp: switch_req_file [OF kick] split: arg.splits if_splits)
  next
    case mem
    with sw show ?thesis
      by (auto simp: switch_req_mem_table split: sum.splits if_splits
          dest: prepare_vhost_memory_user_fault)
  qed
qed

lemma copy_reply_fault: "copy_reply req msg a = Inl f \<Longrightarrow> f = BadArgument"
  by (auto simp: copy_reply_def split: vhost_user_request.splits if_splits arg.splits)

lemma vhost_user_sock_returns:
  assumes ks: "keeps_sending (sendmsg_script w)"
  shows "vhost_user_sock dev w req a \<noteq> Inl NoReturn"
proof
  let ?w = "w\<lparr>dispatch_log := dispatch_log w @ [(req, a)]\<rparr>"
  let ?m0 = "\<lparr>request = request_code req, flags = VHOST_USER_VERSION, msg_size = 0, payload = []\<rparr>"
  assume nr: "vhost_user_sock dev w req a = Inl NoReturn"
  then have conn: "\<not> (is_server dev \<and> vhostfd dev < 0)"
    by (auto simp: vhost_user_sock_def Let_def)
  from nr conn switch_req_fault [of ?w req a ?m0] obtain msg fds fd_num need_reply w1 where
    sw: "switch_req ?w req a ?m0 = Inr (Some (msg, fds, fd_num, need_reply, w1))"
    by (auto simp: vhost_user_sock_def Let_def split: sum.splits option.splits)
  from switch_req_built [OF sw] obtain X where "w1 = ?w\<lparr>open_fds := X\<rparr>" by auto
  with ks have "keeps_sending (sendmsg_script w1)" by simp
  from vhost_user_write_returns [OF this] obtain r1 w2 where
    wr: "vhost_user_write w1 (vhostfd dev) msg (int (VHOST_USER_HDR_SIZE + unat (msg_size msg)))
           fds fd_num = Some (r1, w2)"
    by fastforce
  from nr conn sw wr show False
    by (auto simp: vhost_user_sock_def Let_def split: if_splits prod.splits sum.splits
        dest: copy_reply_fault)
qed

lemma vhost_user_sock_keeps_sending:
  assumes "keeps_sending (sendmsg_script w)"
    and "vhost_user_sock dev w req a = Inr (r, a', w')"
  shows "keeps_sending (sendmsg_script w')"
  using vhost_user_sock_script [OF assms(2)] assms(1) keeps_sending_sdrop by auto

text \<open>The queue-pair helper returns on such a script.\<close>

lemma enable_queue_pair_returns:
  assumes ks: "keeps_sending (sendmsg_script w)"
  shows "\<exists>r w'. vhost_user_enable_queue_pair dev w pair_idx enable = Inr (r, w')"
proof -
  have step: "\<exists>r a' w'. vhost_user_sock dev w VHOST_USER_SET_VRING_ENABLE (ArgState st) =
      Inr (r, a', w') \<and> keeps_sending (sendmsg_script w')"
    if "keeps_sending (sendmsg_script w)" for w st
  proof (cases "vhost_user_sock dev w VHOST_USER_SET_VRING_ENABLE (ArgState st)")
    case (Inl f)
    with vhost_user_sock_returns [OF that] have "f \<noteq> NoReturn" by auto
    moreover from Inl have "f = NoReturn"
      by (auto simp: vhost_user_sock_def Let_def switch_req_state
          split: if_splits option.splits prod.splits)
    ultimately show ?thesis by simp
  next
    case (Inr res)
    obtain r a' w' where "res = (r, a', w')" by (cases res)
    with Inr vhost_user_sock_keeps_sending [OF that] show ?thesis by auto
  qed
  let ?st0 = "\<lparr>vring_index = word_of_int (uint pair_idx * 2 + 0), vring_num = word_of_int enable\<rparr>"
  let ?st1 = "\<lparr>vring_index = word_of_int (uint pair_idx * 2 + 1), vring_num = word_of_int enable\<rparr>"
  from step [OF ks, of ?st0] obtain r1 a1 w1 where
    first: "vhost_user_sock dev w VHOST_USER_SET_VRING_ENABLE (ArgState ?st0) = Inr (r1, a1, w1)"
    and ks1: "keeps_sending (sendmsg_script w1)" by blast
  from step [OF ks1, of ?st1] obtain r2 a2 w2 where
    second: "vhost_user_sock dev w1 VHOST_USER_SET_VRING_ENABLE (ArgState ?st1) = Inr (r2, a2, w2)"
    by blast
  from first second show ?thesis
    by (simp add: vhost_user_enable_queue_pair_def Let_def del: add_0_right)
qed

lemma correct_size_dispatch_log: "correct_size (w\<lparr>dispatch_log := l\<rparr>) = correct_size w"
  by (rule ext) (simp add: correct_size_def)

lemma get_hugepage_file_info_dispatch_log:
  "get_hugepage_file_info (w\<lparr>dispatch_log := l\<rparr>) maxn = get_hugepage_file_info w maxn"
  by (simp add: get_hugepage_file_info_def correct_size_dispatch_log
      split: option.splits sum.splits)

text \<open>
  For a supported kind with its argument the switch builds a message, if for
  set-mem-table the discovery succeeds.
\<close>

lemma switch_req_fits:
  assumes fits: "arg_fits req a"
    and found: "req = VHOST_USER_SET_MEM_TABLE \<longrightarrow>
      (\<exists>n hs. get_hugepage_file_info w (int VHOST_MEMORY_MAX_NREGIONS) = Inr (n, hs) \<and> 0 \<le> n)"
  shows "\<exists>msg fds fd_num need_reply w1.
           switch_req (w\<lparr>dispatch_log := l\<rparr>) req a msg0 =
             Inr (Some (msg, fds, fd_num, need_reply, w1))"
proof (cases "req = VHOST_USER_SET_MEM_TABLE")
  case True
  with found obtain n hs where
    info: "get_hugepage_file_info (w\<lparr>dispatch_log := l\<rparr>) (int VHOST_MEMORY_MAX_NREGIONS) =
             Inr (n, hs)"
    and n: "0 \<le> n"
    by (auto simp: get_hugepage_file_info_dispatch_log)
  obtain mrs fds w' where
    "open_regions (w\<lparr>dispatch_log := l\<rparr>) (take (nat n) hs) = (mrs, fds, w')"
    by (metis prod_cases3)
  with True info n show ?thesis
    by (auto simp add: switch_req_mem_table prepare_vhost_memory_user_def)
next
  case False
  with fits show ?thesis
    by (cases req; cases a) (auto simp add: switch_req_def Let_def)
qed

lemma copy_reply_fits:
  "arg_fits req a \<Longrightarrow> \<exists>r a'. copy_reply req msg a = Inr (r, a')"
  by (cases req; cases a) (simp_all add: copy_reply_def)

lemma owner_dispatch:
  "vhost_user_sock client_dev idle_world VHOST_USER_SET_OWNER ArgNull =
     Inr (0, ArgNull,
          idle_world\<lparr>sendmsg_script := sconst (Sent 4096), sendmsg_log := [owner_call],
            dispatch_log := [(VHOST_USER_SET_OWNER, ArgNull)]\<rparr>)"
  by (simp add: vhost_user_sock_def switch_req_no_payload vhost_user_write_def
      sendmsg_retry.simps sendmsg_def client_dev_def idle_world_def owner_call_def Let_def
      VHOST_USER_HDR_SIZE_def VHOST_USER_VERSION_def)

text \<open>
  On a connected channel, a supported kind with its argument is sent, if the socket is not
  interrupted for ever.
\<close>

lemma vhost_user_sock_sends:
  assumes conn: "\<not> (is_server dev \<and> vhostfd dev < 0)"
    and fits: "arg_fits req a"
    and found: "req = VHOST_USER_SET_MEM_TABLE \<longrightarrow>
      (\<exists>n hs. get_hugepage_file_info w (int VHOST_MEMORY_MAX_NREGIONS) = Inr (n, hs) \<and> 0 \<le> n)"
    and ks: "keeps_sending (sendmsg_script w)"
  shows "\<exists>r a' w'. vhost_user_sock dev w req a = Inr (r, a', w') \<and> sendmsg_calls w w' \<noteq> []"
proof -
  let ?w = "w\<lparr>dispatch_log := dispatch_log w @ [(req, a)]\<rparr>"
  let ?m0 = "\<lparr>request = request_code req, flags = VHOST_USER_VERSION, msg_size = 0, payload = []\<rparr>"
  from switch_req_fits [OF fits found] obtain msg fds fd_num need_reply w1 where
    sw: "switch_req ?w req a ?m0 = Inr (Some (msg, fds, fd_num, need_reply, w1))" by blast
  from switch_req_built [OF sw] obtain X where "w1 = ?w\<lparr>open_fds := X\<rparr>" by auto
  with ks have "keeps_sending (sendmsg_script w1)" by simp
  from vhost_user_write_returns [OF this] obtain r1 w2 where
    wr: "vhost_user_write w1 (vhostfd dev) msg (int (VHOST_USER_HDR_SIZE + unat (msg_size msg)))
           fds fd_num = Some (r1, w2)"
    by fastforce
  obtain r2 reply w4 where rd:
    "vhost_user_read (if req = VHOST_USER_SET_MEM_TABLE
                      then close_fds w2 (take (nat fd_num) fds) else w2)
       (vhostfd dev) msg = (r2, reply, w4)"
    by (metis prod_cases3)
  from copy_reply_fits [OF fits] obtain r3 a3 where cp: "copy_reply req reply a = Inr (r3, a3)"
    by blast
  from conn sw wr rd cp have "\<exists>r a' w'. vhost_user_sock dev w req a = Inr (r, a', w')"
    by (auto simp: vhost_user_sock_def Let_def)
  then obtain r a' w' where ret: "vhost_user_sock dev w req a = Inr (r, a', w')" by blast
  from vhost_user_sock_calls [OF ret] conn sw have "sendmsg_calls w w' \<noteq> []"
    by (auto simp del: replicate_Suc)
  with ret show ?thesis by blast
qed

subsection \<open>The size field\<close>

text \<open>
  C1. On a connected channel, a supported request kind with its argument is sent (for
  set-mem-table, if the discovery of the hugepage files succeeds), on a socket that is not
  interrupted for ever: the dispatcher returns and has made at least one
  \<^verbatim>\<open>sendmsg\<close>. Every \<^verbatim>\<open>sendmsg\<close> a dispatch makes sends the header of the request, with
  a size field that is exactly the byte length of the payload, which is the length the
  table of the specification documents for the kind: 0 for get-features, set-owner,
  reset-owner and set-log-fd, 8 for the 64-bit scalars, the size of a vring state or of a
  vring address, and 8 + nregions * the size of a region descriptor for set-mem-table
  (nregions being the count in the message); the length handed to \<^verbatim>\<open>sendmsg\<close> is the
  header size plus that. A dispatch that returns 0 has sent such a header.
\<close>

theorem dispatch_size_is_payload_length:
  "(\<not> (is_server dev \<and> vhostfd dev < 0) \<and> arg_fits req a \<and>
    (req = VHOST_USER_SET_MEM_TABLE \<longrightarrow>
       (\<exists>n hs. get_hugepage_file_info w (int VHOST_MEMORY_MAX_NREGIONS) = Inr (n, hs) \<and> 0 \<le> n)) \<and>
    keeps_sending (sendmsg_script w) \<longrightarrow>
      (\<exists>r a' w'. vhost_user_sock dev w req a = Inr (r, a', w') \<and> sendmsg_calls w w' \<noteq> [])) \<and>
   (keeps_sending (sendmsg_script w) \<longrightarrow> vhost_user_sock dev w req a \<noteq> Inl NoReturn) \<and>
   (\<forall>r a' w'. vhost_user_sock dev w req a = Inr (r, a', w') \<longrightarrow>
      (r = 0 \<longrightarrow> sendmsg_calls w w' \<noteq> []) \<and>
      (\<forall>c \<in> set (sendmsg_calls w w').
         request (sm_buf c) = request_code req \<and> flags (sm_buf c) = VHOST_USER_VERSION \<and>
         unat (msg_size (sm_buf c)) = length (payload (sm_buf c)) \<and>
         length (payload (sm_buf c)) =
           documented_size req (unat (bytes_u32 (payload (sm_buf c)))) \<and>
         sm_len c = int (VHOST_USER_HDR_SIZE + length (payload (sm_buf c)))))"
proof -
  have sends: "\<exists>r a' w'. vhost_user_sock dev w req a = Inr (r, a', w') \<and> sendmsg_calls w w' \<noteq> []"
    if "\<not> (is_server dev \<and> vhostfd dev < 0)" and "arg_fits req a"
      and "req = VHOST_USER_SET_MEM_TABLE \<longrightarrow>
        (\<exists>n hs. get_hugepage_file_info w (int VHOST_MEMORY_MAX_NREGIONS) = Inr (n, hs) \<and> 0 \<le> n)"
      and "keeps_sending (sendmsg_script w)"
    using that by (rule vhost_user_sock_sends)
  have returns: "vhost_user_sock dev w req a \<noteq> Inl NoReturn"
    if "keeps_sending (sendmsg_script w)"
    using that by (rule vhost_user_sock_returns)
  have sent: "sendmsg_calls w w' \<noteq> []"
    if ret: "vhost_user_sock dev w req a = Inr (r, a', w')" and "r = 0" for r a' w'
    using vhost_user_sock_calls [OF ret] that(2) by (auto simp del: replicate_Suc)
  have header: "request (sm_buf c) = request_code req \<and> flags (sm_buf c) = VHOST_USER_VERSION \<and>
         unat (msg_size (sm_buf c)) = length (payload (sm_buf c)) \<and>
         length (payload (sm_buf c)) =
           documented_size req (unat (bytes_u32 (payload (sm_buf c)))) \<and>
         sm_len c = int (VHOST_USER_HDR_SIZE + length (payload (sm_buf c)))"
    if ret: "vhost_user_sock dev w req a = Inr (r, a', w')"
      and c: "c \<in> set (sendmsg_calls w w')" for r a' w' c
  proof -
    let ?m0 = "\<lparr>request = request_code req, flags = VHOST_USER_VERSION, msg_size = 0, payload = []\<rparr>"
    from vhost_user_sock_calls [OF ret] c obtain msg fds fd_num need_reply w1 k where
      sw: "switch_req (w\<lparr>dispatch_log := dispatch_log w @ [(req, a)]\<rparr>) req a ?m0 =
             Inr (Some (msg, fds, fd_num, need_reply, w1))"
      and calls: "sendmsg_calls w w' = replicate (Suc k)
                \<lparr>sm_sockfd = vhostfd dev, sm_buf = msg,
                 sm_len = int (VHOST_USER_HDR_SIZE + unat (msg_size msg)),
                 sm_fds = take (nat fd_num) fds\<rparr>"
      by auto
    from c calls have ceq: "c = \<lparr>sm_sockfd = vhostfd dev, sm_buf = msg,
                 sm_len = int (VHOST_USER_HDR_SIZE + unat (msg_size msg)),
                 sm_fds = take (nat fd_num) fds\<rparr>"
      by (simp del: replicate_Suc)
    from switch_req_built [OF sw] have
      "request msg = request_code req" "flags msg = VHOST_USER_VERSION"
      "unat (msg_size msg) = length (payload msg)"
      "length (payload msg) = documented_size req (unat (bytes_u32 (payload msg)))"
      by simp_all
    with ceq show ?thesis by simp
  qed
  from sends returns sent header show ?thesis by blast
qed

theorem dispatch_size_is_payload_length_witness:
  "vhost_user_sock client_dev huge_world VHOST_USER_SET_MEM_TABLE ArgNull =
     Inr (0, ArgNull,
          huge_world\<lparr>sendmsg_script := sconst (Sent 4096), sendmsg_log := [huge_call],
            open_fds := [0, 1, 2, 3], dispatch_log := [(VHOST_USER_SET_MEM_TABLE, ArgNull)]\<rparr>) \<and>
   sendmsg_calls huge_world
      (huge_world\<lparr>sendmsg_script := sconst (Sent 4096), sendmsg_log := [huge_call],
         open_fds := [0, 1, 2, 3], dispatch_log := [(VHOST_USER_SET_MEM_TABLE, ArgNull)]\<rparr>) =
     [huge_call] \<and>
   request (sm_buf huge_call) = 5 \<and> flags (sm_buf huge_call) = 1 \<and>
   unat (msg_size (sm_buf huge_call)) = 72 \<and> length (payload (sm_buf huge_call)) = 72 \<and>
   documented_size VHOST_USER_SET_MEM_TABLE 2 = 72 \<and> sm_len huge_call = 84 \<and>
   vhost_user_sock client_dev idle_world VHOST_USER_SET_OWNER ArgNull =
     Inr (0, ArgNull,
          idle_world\<lparr>sendmsg_script := sconst (Sent 4096), sendmsg_log := [owner_call],
            dispatch_log := [(VHOST_USER_SET_OWNER, ArgNull)]\<rparr>) \<and>
   sendmsg_calls idle_world
      (idle_world\<lparr>sendmsg_script := sconst (Sent 4096), sendmsg_log := [owner_call],
         dispatch_log := [(VHOST_USER_SET_OWNER, ArgNull)]\<rparr>) = [owner_call] \<and>
   request (sm_buf owner_call) = 3 \<and> unat (msg_size (sm_buf owner_call)) = 0 \<and>
   payload (sm_buf owner_call) = [] \<and> documented_size VHOST_USER_SET_OWNER 0 = 0 \<and>
   sm_len owner_call = 12"
proof -
  have conn: "\<not> (is_server client_dev \<and> vhostfd client_dev < 0)" by (simp add: client_dev_def)
  have ks: "keeps_sending (sendmsg_script huge_world)" "keeps_sending (sendmsg_script idle_world)"
    by (simp_all add: huge_world_def idle_world_def keeps_sending_sconst keeps_sending_SCons)
  have found: "\<exists>n hs. get_hugepage_file_info huge_world (int VHOST_MEMORY_MAX_NREGIONS) =
      Inr (n, hs) \<and> 0 \<le> n"
    using huge_info [of "[]"] by (simp add: huge_world_def VHOST_MEMORY_MAX_NREGIONS_def)
  have calls: "sendmsg_calls huge_world
      (huge_world\<lparr>sendmsg_script := sconst (Sent 4096), sendmsg_log := [huge_call],
         open_fds := [0, 1, 2, 3], dispatch_log := [(VHOST_USER_SET_MEM_TABLE, ArgNull)]\<rparr>) =
     [huge_call]"
    "sendmsg_calls idle_world
      (idle_world\<lparr>sendmsg_script := sconst (Sent 4096), sendmsg_log := [owner_call],
         dispatch_log := [(VHOST_USER_SET_OWNER, ArgNull)]\<rparr>) = [owner_call]"
    by (simp_all add: sendmsg_calls_def huge_world_def idle_world_def)
  have n: "unat (bytes_u32 (payload (sm_buf huge_call))) = 2"
    by (simp add: huge_call_def memory_bytes_def)
  have o: "payload (sm_buf owner_call) = []" by (simp add: owner_call_def)
  from dispatch_size_is_payload_length
      [of client_dev VHOST_USER_SET_MEM_TABLE ArgNull huge_world]
    dispatch_size_is_payload_length
      [of client_dev VHOST_USER_SET_OWNER ArgNull idle_world]
    conn ks found calls huge_dispatch owner_dispatch
  show ?thesis
    by (simp add: n o VHOST_USER_VERSION_def VHOST_USER_HDR_SIZE_def sizeof_memory_region_def)
qed

subsection \<open>The queue-pair helper\<close>

text \<open>
  C8. On a socket that is not interrupted for ever the queue-pair helper returns, and
  whenever it returns, it has issued set-vring-enable dispatches and nothing else, in one
  of two ways. Either the first dispatch, for ring \<open>2 * pair_idx\<close>, returned non-zero:
  then the helper returns -1 in the world that dispatch left, and the second dispatch was
  never issued. Or the first returned 0 and the second was issued in the world the first
  left, for ring \<open>2 * pair_idx + 1\<close>: exactly two dispatches, and the helper returns -1
  if the second returned non-zero and 0 otherwise. Both carry the same \<open>enable\<close> as
  their value.
\<close>

theorem enable_queue_pair_dispatches:
  fixes pair_idx :: u16 and enable :: int
  defines "st0 \<equiv> \<lparr>vring_index = word_of_int (uint pair_idx * 2), vring_num = word_of_int enable\<rparr>"
    and "st1 \<equiv> \<lparr>vring_index = word_of_int (uint pair_idx * 2 + 1), vring_num = word_of_int enable\<rparr>"
  shows "unat (vring_index st0) = 2 * unat pair_idx \<and>
         unat (vring_index st1) = 2 * unat pair_idx + 1 \<and>
         (keeps_sending (sendmsg_script w) \<longrightarrow>
            (\<exists>r w'. vhost_user_enable_queue_pair dev w pair_idx enable = Inr (r, w'))) \<and>
         (\<forall>r w'. vhost_user_enable_queue_pair dev w pair_idx enable = Inr (r, w') \<longrightarrow>
            r = - 1 \<and>
            dispatch_log w' = dispatch_log w @
              [(VHOST_USER_SET_VRING_ENABLE, ArgState st0)] \<and>
            (\<exists>r1 a1. vhost_user_sock dev w VHOST_USER_SET_VRING_ENABLE
                        (ArgState st0) = Inr (r1, a1, w') \<and> r1 \<noteq> 0)
            \<or>
            dispatch_log w' = dispatch_log w @
              [(VHOST_USER_SET_VRING_ENABLE, ArgState st0),
               (VHOST_USER_SET_VRING_ENABLE, ArgState st1)] \<and>
            (\<exists>a1 w1 r2 a2.
               vhost_user_sock dev w VHOST_USER_SET_VRING_ENABLE
                 (ArgState st0) = Inr (0, a1, w1) \<and>
               vhost_user_sock dev w1 VHOST_USER_SET_VRING_ENABLE
                 (ArgState st1) = Inr (r2, a2, w') \<and>
               r = (if r2 \<noteq> 0 then - 1 else 0)))"
proof -
  have lt: "uint pair_idx < 2 ^ 16" using uint_bounded [of pair_idx] by simp
  have ge: "0 \<le> uint pair_idx" by simp
  have "take_bit 32 (uint pair_idx * 2) = uint pair_idx * 2"
    using lt ge by (intro take_bit_int_eq_self) auto
  then have u0: "uint (word_of_int (uint pair_idx * 2) :: u32) = uint pair_idx * 2"
    unfolding uint_word_of_int_eq by simp
  have "take_bit 32 (uint pair_idx * 2 + 1) = uint pair_idx * 2 + 1"
    using lt ge by (intro take_bit_int_eq_self) auto
  then have u1: "uint (word_of_int (uint pair_idx * 2 + 1) :: u32) = uint pair_idx * 2 + 1"
    unfolding uint_word_of_int_eq by simp
  have i0: "unat (vring_index st0) = 2 * unat pair_idx"
    unfolding st0_def unat_eq_nat_uint vhost_vring_state.simps u0
    by (simp add: nat_mult_distrib)
  have i1: "unat (vring_index st1) = 2 * unat pair_idx + 1"
    unfolding st1_def unat_eq_nat_uint vhost_vring_state.simps u1
    by (simp add: nat_mult_distrib nat_add_distrib)
  have returns: "\<exists>r w'. vhost_user_enable_queue_pair dev w pair_idx enable = Inr (r, w')"
    if "keeps_sending (sendmsg_script w)"
    using that by (rule enable_queue_pair_returns)
  have issued: "r = - 1 \<and>
            dispatch_log w' = dispatch_log w @ [(VHOST_USER_SET_VRING_ENABLE, ArgState st0)] \<and>
            (\<exists>r1 a1. vhost_user_sock dev w VHOST_USER_SET_VRING_ENABLE (ArgState st0) =
                        Inr (r1, a1, w') \<and> r1 \<noteq> 0)
            \<or>
            dispatch_log w' = dispatch_log w @
              [(VHOST_USER_SET_VRING_ENABLE, ArgState st0),
               (VHOST_USER_SET_VRING_ENABLE, ArgState st1)] \<and>
            (\<exists>a1 w1 r2 a2.
               vhost_user_sock dev w VHOST_USER_SET_VRING_ENABLE (ArgState st0) = Inr (0, a1, w1) \<and>
               vhost_user_sock dev w1 VHOST_USER_SET_VRING_ENABLE (ArgState st1) = Inr (r2, a2, w') \<and>
               r = (if r2 \<noteq> 0 then - 1 else 0))"
    if ret: "vhost_user_enable_queue_pair dev w pair_idx enable = Inr (r, w')" for r w'
  proof -
    obtain r1 a1 w1 where first:
      "vhost_user_sock dev w VHOST_USER_SET_VRING_ENABLE (ArgState st0) = Inr (r1, a1, w1)"
      using ret
      by (auto simp: vhost_user_enable_queue_pair_def st0_def split: sum.splits)
    note log1 = vhost_user_sock_dispatch_log [OF first]
    show ?thesis
    proof (cases "r1 = 0")
      case False
      with ret first have "r = - 1" "w' = w1"
        by (auto simp: vhost_user_enable_queue_pair_def st0_def)
      with first False log1 show ?thesis by auto
    next
      case True
      with ret first obtain r2 a2 w2 where second:
        "vhost_user_sock dev w1 VHOST_USER_SET_VRING_ENABLE (ArgState st1) = Inr (r2, a2, w2)"
        by (auto simp: vhost_user_enable_queue_pair_def st0_def st1_def split: sum.splits)
      note log2 = vhost_user_sock_dispatch_log [OF second]
      from ret first second True have "r = (if r2 \<noteq> 0 then - 1 else 0)" "w' = w2"
        by (auto simp: vhost_user_enable_queue_pair_def st0_def st1_def split: if_splits)
      with first second True log1 log2 show ?thesis by auto
    qed
  qed
  from i0 i1 returns issued show ?thesis by blast
qed

theorem enable_queue_pair_dispatches_witness:
  "keeps_sending (sendmsg_script idle_world) \<and>
   (\<exists>r w'. vhost_user_enable_queue_pair client_dev idle_world 2 1 = Inr (r, w')) \<and>
   dispatch_log (idle_world\<lparr>sendmsg_script := sconst (Sent 4096),
               sendmsg_log := [enable_call 4, enable_call 5],
               dispatch_log :=
                 [(VHOST_USER_SET_VRING_ENABLE, ArgState \<lparr>vring_index = 4, vring_num = 1\<rparr>),
                  (VHOST_USER_SET_VRING_ENABLE, ArgState \<lparr>vring_index = 5, vring_num = 1\<rparr>)]\<rparr>) =
     dispatch_log idle_world @
       [(VHOST_USER_SET_VRING_ENABLE, ArgState \<lparr>vring_index = 4, vring_num = 1\<rparr>),
        (VHOST_USER_SET_VRING_ENABLE, ArgState \<lparr>vring_index = 5, vring_num = 1\<rparr>)] \<and>
   (\<exists>r1 a1. vhost_user_sock server_dev idle_world VHOST_USER_SET_VRING_ENABLE
        (ArgState \<lparr>vring_index = 4, vring_num = 1\<rparr>) =
        Inr (r1, a1, idle_world\<lparr>dispatch_log :=
                 [(VHOST_USER_SET_VRING_ENABLE, ArgState \<lparr>vring_index = 4, vring_num = 1\<rparr>)]\<rparr>) \<and>
        r1 \<noteq> 0)"
proof -
  have ks: "keeps_sending (sendmsg_script idle_world)"
    by (simp add: idle_world_def keeps_sending_sconst keeps_sending_SCons)
  from enable_queue_pair_dispatches [where dev = client_dev and w = idle_world
      and pair_idx = 2 and enable = 1]
    enable_queue_pair_dispatches [where dev = server_dev and w = idle_world
      and pair_idx = 2 and enable = 1] ks enable_idle enable_unconnected
  show ?thesis
    by (auto simp add: idle_world_def)
qed

end
